theory Spec2Isabelle
  imports Main
begin

section \<open>Data model of \<^verbatim>\<open>cmd/lspschema/gen.go\<close>\<close>

text \<open>
  A value of Go's \<^verbatim>\<open>interface{}\<close> filled by \<^verbatim>\<open>encoding/json\<close>, and at the same
  time the parsed form of a document fragment handed to a decoder.  Numbers keep their
  source text; an object keeps its members in document order, duplicates included.
\<close>

datatype json =
    JNull
  | JBool bool
  | JNumber string
  | JString string
  | JArray "json list"
  | JObject "(string \<times> json) list"

text \<open>\<^verbatim>\<open>type BaseElement struct\<close>: the shared optional metadata.\<close>

record BaseElement =
  Since :: "string option"
  Proposed :: bool
  Deprecated :: "string option"
  Documentation :: "string option"
  SinceTags :: "string list"

text \<open>
  \<^verbatim>\<open>type Schema struct\<close> is a tagged union: \<^verbatim>\<open>Kind\<close> is the tag and exactly one of
  the nine pointer fields is set by the decoder, so each constructor below is one kind and
  carries the payload of the struct that pointer refers to (\<^verbatim>\<open>BaseSchema.Name\<close>,
  \<^verbatim>\<open>ReferenceSchema.Name\<close> and \<^verbatim>\<open>Found\<close>, \<^verbatim>\<open>ArraySchema.Element\<close>, ...), after the
  embedded \<^verbatim>\<open>BaseElement\<close>.  Every \<^verbatim>\<open>*Schema\<close>, \<^verbatim>\<open>*AnyRef\<close>, \<^verbatim>\<open>*Structure\<close>,
  \<^verbatim>\<open>*Enumeration\<close> and \<^verbatim>\<open>*TypeAlias\<close> is an option: \<open>None\<close> is the nil pointer.

  The constructor \<open>Structure\<close> lists \<^verbatim>\<open>BaseElement\<close>, \<^verbatim>\<open>Name\<close>, \<^verbatim>\<open>Properties\<close>,
  \<^verbatim>\<open>Documentations\<close>, \<^verbatim>\<open>Extends\<close>, \<^verbatim>\<open>Mixins\<close>; \<open>Property\<close> lists \<^verbatim>\<open>BaseElement\<close>,
  \<^verbatim>\<open>Name\<close>, \<^verbatim>\<open>Type\<close>, \<^verbatim>\<open>Optional\<close>; \<open>Enumeration\<close> lists \<^verbatim>\<open>BaseElement\<close>, \<^verbatim>\<open>Name\<close>,
  \<^verbatim>\<open>Type\<close>, \<^verbatim>\<open>Values\<close>, \<^verbatim>\<open>SupportsCustomValues\<close>; \<open>TypeAlias\<close> lists \<^verbatim>\<open>BaseElement\<close>,
  \<^verbatim>\<open>Name\<close>, \<^verbatim>\<open>Type\<close>; \<open>AnyRef\<close> lists \<^verbatim>\<open>Name\<close>, \<^verbatim>\<open>Structure\<close>, \<^verbatim>\<open>Enumeration\<close>,
  \<^verbatim>\<open>TypeAlias\<close>.
\<close>

datatype Schema =
    Base BaseElement string
  | Reference BaseElement string "AnyRef option"
  | Array BaseElement "Schema option"
  | Or BaseElement "Schema option list"
  | And BaseElement "Schema option list"
  | Map BaseElement "Schema option" "Schema option"
  | StringLiteral BaseElement string
  | Literal BaseElement json
  | Tuple BaseElement "Schema option list"
and AnyRef = AnyRef string "Structure option" "Enumeration option" "TypeAlias option"
and Structure =
  Structure BaseElement string "Property list" string "Schema option list" "Schema option list"
and Property = Property BaseElement string "Schema option" bool
and Enumeration = Enumeration BaseElement string "Schema option" "json list" bool
and TypeAlias = TypeAlias BaseElement string "Schema option"

fun Kind :: "Schema \<Rightarrow> string" where
  "Kind (Base _ _) = ''base''"
| "Kind (Reference _ _ _) = ''reference''"
| "Kind (Array _ _) = ''array''"
| "Kind (Or _ _) = ''or''"
| "Kind (And _ _) = ''and''"
| "Kind (Map _ _ _) = ''map''"
| "Kind (StringLiteral _ _) = ''stringLiteral''"
| "Kind (Literal _ _) = ''literal''"
| "Kind (Tuple _ _) = ''tuple''"

fun Structure_Name :: "Structure \<Rightarrow> string" where
  "Structure_Name (Structure _ name _ _ _ _) = name"

fun Properties :: "Structure \<Rightarrow> Property list" where
  "Properties (Structure _ _ props _ _ _) = props"

fun Property_Name :: "Property \<Rightarrow> string" where
  "Property_Name (Property _ name _ _) = name"

fun Property_Type :: "Property \<Rightarrow> Schema option" where
  "Property_Type (Property _ _ ty _) = ty"

fun Property_Optional :: "Property \<Rightarrow> bool" where
  "Property_Optional (Property _ _ _ opt) = opt"

fun Enumeration_Name :: "Enumeration \<Rightarrow> string" where
  "Enumeration_Name (Enumeration _ name _ _ _) = name"

fun TypeAlias_Name :: "TypeAlias \<Rightarrow> string" where
  "TypeAlias_Name (TypeAlias _ name _) = name"

type_synonym MessageDirection = string

definition ClientToServer :: MessageDirection where
  "ClientToServer = ''clientToServer''"

definition ServerToClient :: MessageDirection where
  "ServerToClient = ''serverToClient''"

record Request =
  Request_BaseElement :: BaseElement
  Method :: string
  TypeName :: string
  Result :: "Schema option"
  Direction :: MessageDirection
  Params :: "Schema option"
  PartialResult :: "Schema option"
  RegistrationOptions :: "Schema option"
  RegistrationMethod :: string
  ErrorData :: "Schema option"

record Model =
  MetaData_Version :: string
  Requests :: "Request list"
  Structures :: "Structure list"
  Enumerations :: "Enumeration list"
  Notifications :: "Request list"
  TypeAliases :: "TypeAlias list"

section \<open>Reference resolution\<close>

text \<open>
  The errors of \<^verbatim>\<open>AnyRef\<close> (\<^verbatim>\<open>"ref not found: %s"\<close>) and \<^verbatim>\<open>Structure\<close>
  (\<^verbatim>\<open>"structure not found: %s"\<close>), each with the name it prints, and the run-time panic
  of dereferencing a nil \<^verbatim>\<open>*Schema\<close> (\<^verbatim>\<open>s.Reference\<close> with \<^verbatim>\<open>s\<close> nil), which ends every
  caller as a returned error does and is carried the same way.
\<close>

datatype error =
    RefNotFound string
  | StructureNotFound string
  | NilDereference

text \<open>
  \<^verbatim>\<open>s.Reference.Found = found\<close> updates a node in place.  Nodes are built by the JSON
  decoder, one fresh node per position of the document, so a node is reached from exactly
  one position of the catalog.  \<^verbatim>\<open>Structure\<close> copies the structure it finds
  (\<^verbatim>\<open>found = &s\<close>, with \<^verbatim>\<open>s\<close> the loop variable), but the copy shares the
  \<^verbatim>\<open>Properties\<close> array and every \<^verbatim>\<open>*Schema\<close> with the catalog.  So the catalog is the
  state, threaded through every call; \<^verbatim>\<open>prop.Type\<close> of property \<open>j\<close> of the structure at
  index \<open>i\<close> is read from the current catalog (\<open>Type_at\<close>), the updated node is stored
  back there (\<open>store_Type\<close>), and the structure a call returns is the catalog's entry as
  the call has left it.
\<close>

definition Type_at :: "Model \<Rightarrow> nat \<Rightarrow> nat \<Rightarrow> Schema option" where
  "Type_at m i j = Property_Type (Properties (Structures m ! i) ! j)"

fun set_Property_Type :: "Property \<Rightarrow> Schema option \<Rightarrow> Property" where
  "set_Property_Type (Property be name _ opt) ty = Property be name ty opt"

fun set_Properties :: "Structure \<Rightarrow> Property list \<Rightarrow> Structure" where
  "set_Properties (Structure be name _ doc ext mix) props = Structure be name props doc ext mix"

definition store_Type :: "Model \<Rightarrow> nat \<Rightarrow> nat \<Rightarrow> Schema option \<Rightarrow> Model" where
  "store_Type m i j ty =
     (let s = Structures m ! i;
          props = Properties s
      in if i < length (Structures m) \<and> j < length props
         then m\<lparr>Structures := (Structures m)[i := set_Properties s
                   (props[j := set_Property_Type (props ! j) ty])]\<rparr>
         else m)"

text \<open>The position of the first element a \<^verbatim>\<open>for ... range\<close> scan stops at.\<close>

fun first_index :: "('a \<Rightarrow> bool) \<Rightarrow> 'a list \<Rightarrow> nat option" where
  "first_index P [] = None"
| "first_index P (x # xs) =
     (if P x then Some 0 else map_option Suc (first_index P xs))"

text \<open>
  \<^verbatim>\<open>ResolveRefs\<close>, \<^verbatim>\<open>AnyRef\<close> and \<^verbatim>\<open>Structure\<close> call one another, and nothing in the
  source bounds the depth of \<^verbatim>\<open>AnyRef\<close> calling \<^verbatim>\<open>Structure\<close>.  The first argument is the
  number of nested \<^verbatim>\<open>AnyRef\<close>-to-\<^verbatim>\<open>Structure\<close> calls still allowed; the result \<open>None\<close>
  says that this depth was not enough.  A call that returns yields the catalog as it has
  left it, and

  \<^item> \<open>ResolveRefs\<close>: the node as it has left it and the returned \<^verbatim>\<open>error\<close> (\<open>None\<close> is nil);
  \<^item> \<open>ResolveItems\<close>: the loop \<^verbatim>\<open>for _, item := range Items\<close>, stopping at the first error;
  \<^item> \<open>Model_AnyRef\<close>, \<open>Model_Structure\<close>: the returned error or value;
  \<^item> \<open>ResolveProps\<close>: the loop over \<^verbatim>\<open>found.Properties\<close> in \<^verbatim>\<open>Structure\<close>, for the
    structure at index \<open>i\<close>, from property index \<open>j\<close> on; the list is what is left of the
    slice the loop ranges over.
\<close>

fun ResolveRefs :: "nat \<Rightarrow> Model \<Rightarrow> Schema option \<Rightarrow> (Model \<times> Schema option \<times> error option) option"
  and ResolveItems :: "nat \<Rightarrow> Model \<Rightarrow> Schema option list \<Rightarrow> (Model \<times> Schema option list \<times> error option) option"
  and Model_AnyRef :: "nat \<Rightarrow> Model \<Rightarrow> string \<Rightarrow> (Model \<times> (error + AnyRef)) option"
  and Model_Structure :: "nat \<Rightarrow> Model \<Rightarrow> string \<Rightarrow> (Model \<times> (error + Structure)) option"
  and ResolveProps :: "nat \<Rightarrow> Model \<Rightarrow> nat \<Rightarrow> nat \<Rightarrow> Property list \<Rightarrow> (Model \<times> error option) option"
where
  "ResolveRefs n m None = Some (m, None, Some NilDereference)"
| "ResolveRefs n m (Some (Reference be name fnd)) =
     (case Model_AnyRef n m name of
        None \<Rightarrow> None
      | Some (m', Inl e) \<Rightarrow> Some (m', Some (Reference be name fnd), Some e)
      | Some (m', Inr found) \<Rightarrow> Some (m', Some (Reference be name (Some found)), None))"
| "ResolveRefs n m (Some (Array be el)) =
     (case ResolveRefs n m el of
        None \<Rightarrow> None
      | Some (m', el', err) \<Rightarrow> Some (m', Some (Array be el'), err))"
| "ResolveRefs n m (Some (Or be items)) =
     (case ResolveItems n m items of
        None \<Rightarrow> None
      | Some (m', items', err) \<Rightarrow> Some (m', Some (Or be items'), err))"
| "ResolveRefs n m (Some (And be items)) =
     (case ResolveItems n m items of
        None \<Rightarrow> None
      | Some (m', items', err) \<Rightarrow> Some (m', Some (And be items'), err))"
| "ResolveRefs n m (Some (Map be k v)) =
     (case ResolveRefs n m k of
        None \<Rightarrow> None
      | Some (m', k', Some e) \<Rightarrow> Some (m', Some (Map be k' v), Some e)
      | Some (m', k', None) \<Rightarrow>
          (case ResolveRefs n m' v of
             None \<Rightarrow> None
           | Some (m'', v', err) \<Rightarrow> Some (m'', Some (Map be k' v'), err)))"
| "ResolveRefs n m (Some (Tuple be items)) =
     (case ResolveItems n m items of
        None \<Rightarrow> None
      | Some (m', items', err) \<Rightarrow> Some (m', Some (Tuple be items'), err))"
| "ResolveRefs n m (Some (Base be name)) = Some (m, Some (Base be name), None)"
| "ResolveRefs n m (Some (StringLiteral be v)) = Some (m, Some (StringLiteral be v), None)"
| "ResolveRefs n m (Some (Literal be v)) = Some (m, Some (Literal be v), None)"
| "ResolveItems n m [] = Some (m, [], None)"
| "ResolveItems n m (item # items) =
     (case ResolveRefs n m item of
        None \<Rightarrow> None
      | Some (m', item', Some e) \<Rightarrow> Some (m', item' # items, Some e)
      | Some (m', item', None) \<Rightarrow>
          (case ResolveItems n m' items of
             None \<Rightarrow> None
           | Some (m'', items', err) \<Rightarrow> Some (m'', item' # items', err)))"
| "Model_AnyRef n m name =
     (case find (\<lambda>s. Structure_Name s = name) (Structures m) of
        Some s \<Rightarrow>
         (case n of
            0 \<Rightarrow> None
          | Suc k \<Rightarrow>
             (case Model_Structure k m name of
                None \<Rightarrow> None
              | Some (m', Inl e) \<Rightarrow> Some (m', Inl e)
              | Some (m', Inr structure) \<Rightarrow>
                  Some (m', Inr (AnyRef name (Some structure) None None))))
      | None \<Rightarrow>
         (case find (\<lambda>e. Enumeration_Name e = name) (Enumerations m) of
            Some e \<Rightarrow> Some (m, Inr (AnyRef name None (Some e) None))
          | None \<Rightarrow>
             (case find (\<lambda>a. TypeAlias_Name a = name) (TypeAliases m) of
                Some a \<Rightarrow> Some (m, Inr (AnyRef name None None (Some a)))
              | None \<Rightarrow> Some (m, Inl (RefNotFound name)))))"
| "Model_Structure n m name =
     (case first_index (\<lambda>s. Structure_Name s = name) (Structures m) of
        None \<Rightarrow> Some (m, Inl (StructureNotFound name))
      | Some i \<Rightarrow>
         (case ResolveProps n m i 0 (Properties (Structures m ! i)) of
            None \<Rightarrow> None
          | Some (m', Some e) \<Rightarrow> Some (m', Inl e)
          | Some (m', None) \<Rightarrow> Some (m', Inr (Structures m' ! i))))"
| "ResolveProps n m i j [] = Some (m, None)"
| "ResolveProps n m i j (prop # props) =
     (case ResolveRefs n m (Type_at m i j) of
        None \<Rightarrow> None
      | Some (m', ty', err) \<Rightarrow>
         (let m'' = store_Type m' i j ty'
          in case err of
               Some e \<Rightarrow> Some (m'', Some e)
             | None \<Rightarrow> ResolveProps n m'' i (Suc j) props))"

section \<open>Declaration emitter\<close>

text \<open>
  \<^verbatim>\<open>PrintStruct\<close> returns nothing; it either finishes or panics: with a message of its own
  (\<^verbatim>\<open>panic("ref not found: " + name)\<close>, \<^verbatim>\<open>panic("not implemented")\<close>) or, at
  \<^verbatim>\<open>prop.Type.Kind\<close> with a nil \<^verbatim>\<open>Type\<close>, with the run-time's nil dereference.
\<close>

datatype panic = Panic string | NilPointerPanic

text \<open>
  \<^verbatim>\<open>fmt.Sprintf("%s %s `json:\"%s,omitempty\"", key, typeName, prop.Name)\<close>.  The format
  has one backquote, before \<^verbatim>\<open>json\<close>. \<open>CHR 0x60\<close> is the backquote, \<open>CHR 0x22\<close> the
  double quote.
\<close>

definition field_line :: "string \<Rightarrow> string \<Rightarrow> string \<Rightarrow> string" where
  "field_line key typeName name =
     key @ '' '' @ typeName @ '' '' @ [CHR 0x60] @ ''json:'' @ [CHR 0x22] @ name
       @ '',omitempty'' @ [CHR 0x22]"

text \<open>
  The three kinds of \<^verbatim>\<open>p.p\<close> calls that close \<^verbatim>\<open>PrintStruct\<close>:
  \<^verbatim>\<open>"type %s struct {\n"\<close>, \<^verbatim>\<open>"\t%s\n"\<close> for each collected field, \<^verbatim>\<open>"}\n"\<close>.
  \<open>CHR 0x0A\<close> is the newline, \<open>CHR 0x09\<close> the tab.
\<close>

definition struct_decl :: "string \<Rightarrow> string list \<Rightarrow> string list" where
  "struct_decl name types =
     [''type '' @ name @ '' struct {'' @ [CHR 0x0A]]
       @ map (\<lambda>t. [CHR 0x09] @ t @ [CHR 0x0A]) types
       @ [''}'' @ [CHR 0x0A]]"

text \<open>
  The output stream is the list of the chunks written so far, one per \<^verbatim>\<open>p.p\<close> call
  (the writer is taken not to fail).  \<^verbatim>\<open>strcase.ToGoPascal\<close> belongs to a library outside
  the repository and is the parameter \<open>toGoPascal\<close>.  \<open>PrintProps\<close> is the loop
  \<^verbatim>\<open>for _, prop := range s.Properties\<close>, with the local \<^verbatim>\<open>types\<close> as accumulator; a
  panic ends the run and leaves the stream as it is.
\<close>

fun PrintStruct :: "(string \<Rightarrow> string) \<Rightarrow> Structure \<Rightarrow> string list \<Rightarrow> string list \<times> panic option"
  and PrintProps :: "(string \<Rightarrow> string) \<Rightarrow> Property list \<Rightarrow> string list \<Rightarrow> string list
                       \<Rightarrow> string list \<times> (panic + string list)"
where
  "PrintStruct toGoPascal (Structure be name props doc ext mix) out =
     (case PrintProps toGoPascal props [] out of
        (out', Inl pn) \<Rightarrow> (out', Some pn)
      | (out', Inr types) \<Rightarrow> (out' @ struct_decl name types, None))"
| "PrintProps toGoPascal [] types out = (out, Inr types)"
| "PrintProps toGoPascal (Property pbe pname ty opt # props) types out =
     (let key = toGoPascal pname in
      case ty of
        None \<Rightarrow> (out, Inl NilPointerPanic)
      | Some (Reference rbe rname fnd) \<Rightarrow>
          (case fnd of
             None \<Rightarrow> (out, Inl (Panic (''ref not found: '' @ rname)))
           | Some (AnyRef aname st en al) \<Rightarrow>
              (case st of
                 Some s \<Rightarrow>
                   (case PrintStruct toGoPascal s out of
                      (out', Some pn) \<Rightarrow> (out', Inl pn)
                    | (out', None) \<Rightarrow>
                        PrintProps toGoPascal props
                          (types @ [field_line key (''*'' @ Structure_Name s) pname]) out')
               | None \<Rightarrow>
                  (case en of
                     Some e \<Rightarrow>
                       PrintProps toGoPascal props
                         (types @ [field_line key (Enumeration_Name e) pname]) out
                   | None \<Rightarrow>
                      (case al of
                         Some a \<Rightarrow>
                           PrintProps toGoPascal props
                             (types @ [field_line key (TypeAlias_Name a) pname]) out
                       | None \<Rightarrow> (out, Inl (Panic ''not implemented''))))))
      | Some (Base bbe bname) \<Rightarrow>
          PrintProps toGoPascal props
            (types @ [field_line key (if bname = ''string'' then ''string'' else []) pname]) out
      | Some _ \<Rightarrow>
          PrintProps toGoPascal props (types @ [field_line key [] pname]) out)"

section \<open>Schema node decoder\<close>

text \<open>
  \<^verbatim>\<open>Schema.UnmarshalJSON\<close> works on the bytes of one fragment of the document; here the
  fragment is its parsed form, a \<open>json\<close> value.  The decoding of a fragment into a Go
  struct is done by \<^verbatim>\<open>encoding/json\<close>, outside the repository; what follows models it for
  the structs \<^verbatim>\<open>UnmarshalJSON\<close> hands to it.

  The errors: \<open>UnmarshalTypeError\<close> (a value that does not fit the Go field named),
  \<open>UnknownField\<close> (\<^verbatim>\<open>json: unknown field\<close>, with \<^verbatim>\<open>DisallowUnknownFields\<close>), and the two of
  \<^verbatim>\<open>UnmarshalJSON\<close> itself: \<^verbatim>\<open>"unknown schema kind: %s"\<close> and
  \<^verbatim>\<open>"unmarshal schema type %s: %w"\<close>, which wraps the error of the strict decoding.
\<close>

datatype derror =
    UnmarshalTypeError string
  | UnknownField string
  | UnknownSchemaKind string
  | SchemaTypeError string derror

text \<open>The zero value of \<^verbatim>\<open>BaseElement\<close>, which a fresh \<^verbatim>\<open>Schema\<close> holds.\<close>

definition zero_BaseElement :: BaseElement where
  "zero_BaseElement =
     \<lparr>Since = None, Proposed = False, Deprecated = None, Documentation = None, SinceTags = []\<rparr>"

text \<open>
  The field of a struct that takes the member with key \<open>key\<close>: the field of that exact
  name, else the first field whose name matches the key up to case.  The case folding of
  \<^verbatim>\<open>encoding/json\<close> is the parameter \<open>equalFold\<close>.
\<close>

definition field_of :: "(string \<Rightarrow> string \<Rightarrow> bool) \<Rightarrow> string list \<Rightarrow> string \<Rightarrow> string option" where
  "field_of equalFold names key =
     (if key \<in> set names then Some key else find (\<lambda>f. equalFold f key) names)"

text \<open>
  A value of the wrong type and an unknown field do not stop the decoder: it keeps the
  first such error (\<open>save\<close>), goes on, and returns the error kept when it is done.  An
  error returned by an \<^verbatim>\<open>UnmarshalJSON\<close> method stops it at once.  The functions below thread
  the error kept as \<open>saved\<close> and return \<open>Inl\<close> where the decoder stops.
\<close>

definition save :: "derror option \<Rightarrow> derror \<Rightarrow> derror option" where
  "save saved e = (case saved of None \<Rightarrow> Some e | Some e0 \<Rightarrow> Some e0)"

text \<open>A member decoded into a \<^verbatim>\<open>string\<close> field: \<^verbatim>\<open>null\<close> leaves the field as it is.\<close>

definition store_string :: "string \<Rightarrow> json \<Rightarrow> string \<Rightarrow> derror option \<Rightarrow> string \<times> derror option" where
  "store_string field v cur saved =
     (case v of
        JString s \<Rightarrow> (s, saved)
      | JNull \<Rightarrow> (cur, saved)
      | _ \<Rightarrow> (cur, save saved (UnmarshalTypeError field)))"

text \<open>
  \<^verbatim>\<open>json.Unmarshal(b, &explore)\<close>, with \<^verbatim>\<open>explore\<close> a struct of the single field
  \<^verbatim>\<open>Kind string `json:"kind"`\<close>: not strict, so other members are skipped.  The result is
  the error or the \<^verbatim>\<open>Kind\<close> read (empty when there is none).
\<close>

fun explore_members ::
  "(string \<Rightarrow> string \<Rightarrow> bool) \<Rightarrow> (string \<times> json) list \<Rightarrow> string \<Rightarrow> derror option
     \<Rightarrow> string \<times> derror option" where
  "explore_members eqf [] kind saved = (kind, saved)"
| "explore_members eqf ((k, v) # ms) kind saved =
     (if field_of eqf [''kind''] k = Some ''kind'' then
        (case store_string ''kind'' v kind saved of
           (kind', saved') \<Rightarrow> explore_members eqf ms kind' saved')
      else explore_members eqf ms kind saved)"

definition explore :: "(string \<Rightarrow> string \<Rightarrow> bool) \<Rightarrow> json \<Rightarrow> derror + string" where
  "explore eqf b =
     (case b of
        JObject ms \<Rightarrow>
          (case explore_members eqf ms [] None of
             (kind, None) \<Rightarrow> Inr kind
           | (kind, Some e) \<Rightarrow> Inl e)
      | JNull \<Rightarrow> Inr []
      | _ \<Rightarrow> Inl (UnmarshalTypeError ''kind''))"

text \<open>
  The strict decoding of the members of an object into the struct of a variant, one
  function for each shape of struct.  A repeated field takes the value of its last member.
  (\<^verbatim>\<open>encoding/json\<close> decodes a repeated pointer field into the struct its first member
  allocated; for a document that repeats a key the value decoded can differ from the one
  here, whether decoding fails cannot, as no error depends on the value held.)

  \<open>name_members\<close>: \<^verbatim>\<open>BaseSchema\<close> (fields \<^verbatim>\<open>kind\<close>, \<^verbatim>\<open>name\<close>) and \<^verbatim>\<open>StringLiteralSchema\<close>
  (\<^verbatim>\<open>kind\<close>, \<^verbatim>\<open>value\<close>), \<open>fld\<close> being the second field.  The \<^verbatim>\<open>Kind\<close> of a variant struct is never
  read: of its member only the error is kept.
\<close>

fun name_members ::
  "(string \<Rightarrow> string \<Rightarrow> bool) \<Rightarrow> string \<Rightarrow> (string \<times> json) list \<Rightarrow> string \<Rightarrow> derror option
     \<Rightarrow> string \<times> derror option" where
  "name_members eqf fld [] cur saved = (cur, saved)"
| "name_members eqf fld ((k, v) # ms) cur saved =
     (case field_of eqf [''kind'', fld] k of
        None \<Rightarrow> name_members eqf fld ms cur (save saved (UnknownField k))
      | Some f \<Rightarrow>
         (if f = ''kind'' then
            name_members eqf fld ms cur (snd (store_string ''kind'' v [] saved))
          else
            (case store_string fld v cur saved of
               (cur', saved') \<Rightarrow> name_members eqf fld ms cur' saved')))"

text \<open>\<^verbatim>\<open>LiteralSchema\<close>: \<^verbatim>\<open>kind\<close> and \<^verbatim>\<open>value\<close>, an \<^verbatim>\<open>interface{}\<close> that takes any value.\<close>

fun literal_members ::
  "(string \<Rightarrow> string \<Rightarrow> bool) \<Rightarrow> (string \<times> json) list \<Rightarrow> json \<Rightarrow> derror option
     \<Rightarrow> json \<times> derror option" where
  "literal_members eqf [] cur saved = (cur, saved)"
| "literal_members eqf ((k, v) # ms) cur saved =
     (case field_of eqf [''kind'', ''value''] k of
        None \<Rightarrow> literal_members eqf ms cur (save saved (UnknownField k))
      | Some f \<Rightarrow>
         (if f = ''kind'' then
            literal_members eqf ms cur (snd (store_string ''kind'' v [] saved))
          else literal_members eqf ms v saved))"

text \<open>
  \<^verbatim>\<open>ReferenceSchema\<close>: \<^verbatim>\<open>kind\<close>, \<^verbatim>\<open>name\<close> and \<^verbatim>\<open>Found\<close>, which is exported and has no tag, so
  that a member \<^verbatim>\<open>Found\<close> of the document is decoded into it.  That decoding, of a
  \<^verbatim>\<open>*AnyRef\<close>, is the parameter \<open>df\<close>.
\<close>

fun reference_members ::
  "(string \<Rightarrow> string \<Rightarrow> bool) \<Rightarrow> (json \<Rightarrow> derror + AnyRef option) \<Rightarrow> (string \<times> json) list
     \<Rightarrow> string \<times> AnyRef option \<Rightarrow> derror option
     \<Rightarrow> derror + (string \<times> AnyRef option) \<times> derror option" where
  "reference_members eqf df [] cur saved = Inr (cur, saved)"
| "reference_members eqf df ((k, v) # ms) (name, fnd) saved =
     (case field_of eqf [''kind'', ''name'', ''Found''] k of
        None \<Rightarrow> reference_members eqf df ms (name, fnd) (save saved (UnknownField k))
      | Some f \<Rightarrow>
         (if f = ''kind'' then
            reference_members eqf df ms (name, fnd) (snd (store_string ''kind'' v [] saved))
          else if f = ''name'' then
            (case store_string ''name'' v name saved of
               (name', saved') \<Rightarrow> reference_members eqf df ms (name', fnd) saved')
          else
            (case df v of
               Inl e \<Rightarrow> Inl e
             | Inr fnd' \<Rightarrow> reference_members eqf df ms (name, fnd') saved)))"

text \<open>
  \<^verbatim>\<open>unmarshalStrict(b, elem)\<close> for \<open>elem\<close> a pointer to a struct whose zero value is \<open>zero\<close>
  and whose members are decoded by \<open>members\<close>.
\<close>

definition strict :: "json \<Rightarrow> 'a \<Rightarrow> ((string \<times> json) list \<Rightarrow> derror + 'a \<times> derror option) \<Rightarrow> derror + 'a" where
  "strict b zero members =
     (case b of
        JObject ms \<Rightarrow>
          (case members ms of
             Inl e \<Rightarrow> Inl e
           | Inr (x, None) \<Rightarrow> Inr x
           | Inr (x, Some e) \<Rightarrow> Inl e)
      | JNull \<Rightarrow> Inr zero
      | _ \<Rightarrow> Inl (UnmarshalTypeError ''struct''))"

lemma strict_cong [fundef_cong]:
  assumes "b = b'" and "zero = zero'"
    and "\<And>ms. b' = JObject ms \<Longrightarrow> members ms = members' ms"
  shows "strict b zero members = strict b' zero' members'"
  using assms by (simp add: strict_def split: json.splits)

text \<open>The end of \<^verbatim>\<open>UnmarshalJSON\<close>: the error wrapped, or the node built from the struct.\<close>

definition wrap :: "string \<Rightarrow> derror + 'a \<Rightarrow> ('a \<Rightarrow> Schema) \<Rightarrow> derror + Schema" where
  "wrap kind r mk = (case r of Inl e \<Rightarrow> Inl (SchemaTypeError kind e) | Inr x \<Rightarrow> Inr (mk x))"

text \<open>
  A member decoded into a \<^verbatim>\<open>*Schema\<close> field (\<^verbatim>\<open>null\<close> gives nil, any other value goes to
  \<^verbatim>\<open>UnmarshalJSON\<close>, here \<open>dec\<close>) and the elements of an array decoded into a \<^verbatim>\<open>[]*Schema\<close>.
\<close>

definition unmarshal_pointer :: "(json \<Rightarrow> derror + Schema) \<Rightarrow> json \<Rightarrow> derror + Schema option" where
  "unmarshal_pointer dec v =
     (case v of
        JNull \<Rightarrow> Inr None
      | _ \<Rightarrow> (case dec v of Inl e \<Rightarrow> Inl e | Inr s \<Rightarrow> Inr (Some s)))"

fun unmarshal_pointers :: "(json \<Rightarrow> derror + Schema) \<Rightarrow> json list \<Rightarrow> derror + Schema option list" where
  "unmarshal_pointers dec [] = Inr []"
| "unmarshal_pointers dec (x # xs) =
     (case unmarshal_pointer dec x of
        Inl e \<Rightarrow> Inl e
      | Inr p \<Rightarrow>
         (case unmarshal_pointers dec xs of
            Inl e \<Rightarrow> Inl e
          | Inr ps \<Rightarrow> Inr (p # ps)))"

text \<open>
  \<^verbatim>\<open>ArraySchema\<close> (\<^verbatim>\<open>kind\<close>, \<^verbatim>\<open>element\<close>); \<^verbatim>\<open>OrSchema\<close>, \<^verbatim>\<open>AndSchema\<close> and \<^verbatim>\<open>TupleSchema\<close>
  (\<^verbatim>\<open>kind\<close>, \<^verbatim>\<open>items\<close>); \<^verbatim>\<open>MapSchema\<close> (\<^verbatim>\<open>kind\<close>, \<^verbatim>\<open>key\<close>, \<^verbatim>\<open>value\<close>).
\<close>

fun array_members ::
  "(string \<Rightarrow> string \<Rightarrow> bool) \<Rightarrow> (json \<Rightarrow> derror + Schema) \<Rightarrow> (string \<times> json) list
     \<Rightarrow> Schema option \<Rightarrow> derror option \<Rightarrow> derror + Schema option \<times> derror option" where
  "array_members eqf dec [] cur saved = Inr (cur, saved)"
| "array_members eqf dec ((k, v) # ms) cur saved =
     (case field_of eqf [''kind'', ''element''] k of
        None \<Rightarrow> array_members eqf dec ms cur (save saved (UnknownField k))
      | Some f \<Rightarrow>
         (if f = ''kind'' then
            array_members eqf dec ms cur (snd (store_string ''kind'' v [] saved))
          else
            (case unmarshal_pointer dec v of
               Inl e \<Rightarrow> Inl e
             | Inr el \<Rightarrow> array_members eqf dec ms el saved)))"

fun items_members ::
  "(string \<Rightarrow> string \<Rightarrow> bool) \<Rightarrow> (json \<Rightarrow> derror + Schema) \<Rightarrow> (string \<times> json) list
     \<Rightarrow> Schema option list \<Rightarrow> derror option \<Rightarrow> derror + Schema option list \<times> derror option" where
  "items_members eqf dec [] cur saved = Inr (cur, saved)"
| "items_members eqf dec ((k, v) # ms) cur saved =
     (case field_of eqf [''kind'', ''items''] k of
        None \<Rightarrow> items_members eqf dec ms cur (save saved (UnknownField k))
      | Some f \<Rightarrow>
         (if f = ''kind'' then
            items_members eqf dec ms cur (snd (store_string ''kind'' v [] saved))
          else
            (case v of
               JNull \<Rightarrow> items_members eqf dec ms [] saved
             | JArray xs \<Rightarrow>
                 (case unmarshal_pointers dec xs of
                    Inl e \<Rightarrow> Inl e
                  | Inr items \<Rightarrow> items_members eqf dec ms items saved)
             | _ \<Rightarrow> items_members eqf dec ms cur (save saved (UnmarshalTypeError ''items'')))))"

fun map_members ::
  "(string \<Rightarrow> string \<Rightarrow> bool) \<Rightarrow> (json \<Rightarrow> derror + Schema) \<Rightarrow> (string \<times> json) list
     \<Rightarrow> Schema option \<times> Schema option \<Rightarrow> derror option
     \<Rightarrow> derror + (Schema option \<times> Schema option) \<times> derror option" where
  "map_members eqf dec [] cur saved = Inr (cur, saved)"
| "map_members eqf dec ((k, v) # ms) (key, val) saved =
     (case field_of eqf [''kind'', ''key'', ''value''] k of
        None \<Rightarrow> map_members eqf dec ms (key, val) (save saved (UnknownField k))
      | Some f \<Rightarrow>
         (if f = ''kind'' then
            map_members eqf dec ms (key, val) (snd (store_string ''kind'' v [] saved))
          else if f = ''key'' then
            (case unmarshal_pointer dec v of
               Inl e \<Rightarrow> Inl e
             | Inr key' \<Rightarrow> map_members eqf dec ms (key', val) saved)
          else
            (case unmarshal_pointer dec v of
               Inl e \<Rightarrow> Inl e
             | Inr val' \<Rightarrow> map_members eqf dec ms (key, val') saved)))"

text \<open>
  The decoder of the nodes below is an argument of the functions above; these rules say
  that it is applied to members and elements of the fragment only, which is what the
  termination of \<open>UnmarshalJSON\<close> rests on.
\<close>

lemma unmarshal_pointer_eq:
  "dec v = dec' v \<Longrightarrow> unmarshal_pointer dec v = unmarshal_pointer dec' v"
  by (cases v) (simp_all add: unmarshal_pointer_def)

lemma unmarshal_pointer_cong [fundef_cong]:
  assumes "v = v'" and "v' \<noteq> JNull \<Longrightarrow> dec v' = dec' v'"
  shows "unmarshal_pointer dec v = unmarshal_pointer dec' v'"
  using assms by (cases v') (simp_all add: unmarshal_pointer_def)

lemma unmarshal_pointers_cong [fundef_cong]:
  assumes "xs = xs'" and "\<And>x. x \<in> set xs' \<Longrightarrow> dec x = dec' x"
  shows "unmarshal_pointers dec xs = unmarshal_pointers dec' xs'"
  using assms(2) unfolding assms(1)
proof (induction xs')
  case Nil
  show ?case by simp
next
  case (Cons x xs')
  have "dec x = dec' x"
    using Cons.prems [of x] by simp
  then have p: "unmarshal_pointer dec x = unmarshal_pointer dec' x"
    by (rule unmarshal_pointer_eq)
  have r: "unmarshal_pointers dec xs' = unmarshal_pointers dec' xs'"
    by (rule Cons.IH) (simp add: Cons.prems)
  show ?case by (simp add: p r cong: sum.case_cong)
qed

lemma array_members_cong [fundef_cong]:
  assumes "ms = ms'" and "\<And>k v. (k, v) \<in> set ms' \<Longrightarrow> dec v = dec' v"
  shows "array_members eqf dec ms cur saved = array_members eqf dec' ms' cur saved"
  using assms(2) unfolding assms(1)
proof (induction ms' arbitrary: cur saved)
  case Nil
  show ?case by simp
next
  case (Cons kv ms')
  obtain k v where kv: "kv = (k, v)" by (cases kv)
  have "dec v = dec' v"
    using Cons.prems [of k v] by (simp add: kv)
  then have p: "unmarshal_pointer dec v = unmarshal_pointer dec' v"
    by (rule unmarshal_pointer_eq)
  have r: "\<And>c s. array_members eqf dec ms' c s = array_members eqf dec' ms' c s"
  proof (rule Cons.IH)
    fix k' v' assume "(k', v') \<in> set ms'"
    then show "dec v' = dec' v'"
      using Cons.prems [of k' v'] by simp
  qed
  show ?case by (auto simp: kv p r split: option.splits sum.splits)
qed

lemma items_members_cong [fundef_cong]:
  assumes "ms = ms'"
    and "\<And>k xs x. (k, JArray xs) \<in> set ms' \<Longrightarrow> x \<in> set xs \<Longrightarrow> dec x = dec' x"
  shows "items_members eqf dec ms cur saved = items_members eqf dec' ms' cur saved"
  using assms(2) unfolding assms(1)
proof (induction ms' arbitrary: cur saved)
  case Nil
  show ?case by simp
next
  case (Cons kv ms')
  obtain k v where kv: "kv = (k, v)" by (cases kv)
  have p: "unmarshal_pointers dec xs = unmarshal_pointers dec' xs" if "v = JArray xs" for xs
  proof (rule unmarshal_pointers_cong)
    show "xs = xs" by simp
  next
    fix x assume "x \<in> set xs"
    then show "dec x = dec' x"
      using Cons.prems [of k xs x] that by (simp add: kv)
  qed
  have r: "\<And>c s. items_members eqf dec ms' c s = items_members eqf dec' ms' c s"
  proof (rule Cons.IH)
    fix k' xs x assume "(k', JArray xs) \<in> set ms'" and "x \<in> set xs"
    then show "dec x = dec' x"
      using Cons.prems [of k' xs x] by simp
  qed
  show ?case
    by (cases v) (auto simp: kv p r split: option.splits sum.splits)
qed

lemma map_members_cong [fundef_cong]:
  assumes "ms = ms'" and "\<And>k v. (k, v) \<in> set ms' \<Longrightarrow> dec v = dec' v"
  shows "map_members eqf dec ms cur saved = map_members eqf dec' ms' cur saved"
  using assms(2) unfolding assms(1)
proof (induction ms' arbitrary: cur saved)
  case Nil
  show ?case by (cases cur) simp
next
  case (Cons kv ms')
  obtain k v where kv: "kv = (k, v)" by (cases kv)
  obtain key val where cur: "cur = (key, val)" by (cases cur)
  have "dec v = dec' v"
    using Cons.prems [of k v] by (simp add: kv)
  then have p: "unmarshal_pointer dec v = unmarshal_pointer dec' v"
    by (rule unmarshal_pointer_eq)
  have r: "\<And>c s. map_members eqf dec ms' c s = map_members eqf dec' ms' c s"
  proof (rule Cons.IH)
    fix k' v' assume "(k', v') \<in> set ms'"
    then show "dec v' = dec' v'"
      using Cons.prems [of k' v'] by simp
  qed
  show ?case by (auto simp: kv cur p r split: option.splits sum.splits)
qed

lemma size_member: "(k, v) \<in> set ms \<Longrightarrow> size v < size (JObject ms)"
  by (induction ms) auto

lemma size_element: "x \<in> set xs \<Longrightarrow> size x < size (JArray xs)"
  by (induction xs) auto

text \<open>
  \<^verbatim>\<open>func (s *Schema) UnmarshalJSON(b []byte) error\<close>, for a fresh \<^verbatim>\<open>s\<close>: the node decoded or
  the error.  The cases are those of the \<^verbatim>\<open>switch\<close>, in its order.
\<close>

function UnmarshalJSON ::
  "(string \<Rightarrow> string \<Rightarrow> bool) \<Rightarrow> (json \<Rightarrow> derror + AnyRef option) \<Rightarrow> json \<Rightarrow> derror + Schema" where
  "UnmarshalJSON eqf df b =
     (case explore eqf b of
        Inl e \<Rightarrow> Inl e
      | Inr kind \<Rightarrow>
         (if kind = ''array'' then
            wrap kind (strict b None (\<lambda>ms. array_members eqf (UnmarshalJSON eqf df) ms None None))
              (Array zero_BaseElement)
          else if kind = ''or'' then
            wrap kind (strict b [] (\<lambda>ms. items_members eqf (UnmarshalJSON eqf df) ms [] None))
              (Or zero_BaseElement)
          else if kind = ''and'' then
            wrap kind (strict b [] (\<lambda>ms. items_members eqf (UnmarshalJSON eqf df) ms [] None))
              (And zero_BaseElement)
          else if kind = ''reference'' then
            wrap kind (strict b ([], None) (\<lambda>ms. reference_members eqf df ms ([], None) None))
              (\<lambda>(name, fnd). Reference zero_BaseElement name fnd)
          else if kind = ''base'' then
            wrap kind (strict b [] (\<lambda>ms. Inr (name_members eqf ''name'' ms [] None)))
              (Base zero_BaseElement)
          else if kind = ''map'' then
            wrap kind (strict b (None, None)
                         (\<lambda>ms. map_members eqf (UnmarshalJSON eqf df) ms (None, None) None))
              (\<lambda>(k, v). Map zero_BaseElement k v)
          else if kind = ''stringLiteral'' then
            wrap kind (strict b [] (\<lambda>ms. Inr (name_members eqf ''value'' ms [] None)))
              (StringLiteral zero_BaseElement)
          else if kind = ''literal'' then
            wrap kind (strict b JNull (\<lambda>ms. Inr (literal_members eqf ms JNull None)))
              (Literal zero_BaseElement)
          else if kind = ''tuple'' then
            wrap kind (strict b [] (\<lambda>ms. items_members eqf (UnmarshalJSON eqf df) ms [] None))
              (Tuple zero_BaseElement)
          else Inl (UnknownSchemaKind kind)))"
  by pat_completeness auto
termination
  by (relation "measure (\<lambda>(eqf, df, b). size b)")
     (auto dest!: size_member size_element)

section \<open>What resolution leaves alone\<close>

text \<open>
  \<open>erase_Schema\<close> forgets the resolution handles of a node: \<^verbatim>\<open>Found\<close> becomes nil in
  every reference node reached through array, or, and, map and tuple nodes.  Two nodes
  with the same erasure differ in resolution handles only.  \<open>erase_Model\<close> does so for
  the type of every property of every structure of the catalog and keeps every other
  field of the catalog as it is.
\<close>

fun erase_Schema :: "Schema \<Rightarrow> Schema" where
  "erase_Schema (Base be name) = Base be name"
| "erase_Schema (Reference be name fnd) = Reference be name None"
| "erase_Schema (Array be el) = Array be (map_option erase_Schema el)"
| "erase_Schema (Or be items) = Or be (map (map_option erase_Schema) items)"
| "erase_Schema (And be items) = And be (map (map_option erase_Schema) items)"
| "erase_Schema (Map be k v) = Map be (map_option erase_Schema k) (map_option erase_Schema v)"
| "erase_Schema (StringLiteral be v) = StringLiteral be v"
| "erase_Schema (Literal be v) = Literal be v"
| "erase_Schema (Tuple be items) = Tuple be (map (map_option erase_Schema) items)"

fun erase_Property :: "Property \<Rightarrow> Property" where
  "erase_Property (Property be name ty opt) = Property be name (map_option erase_Schema ty) opt"

fun erase_Structure :: "Structure \<Rightarrow> Structure" where
  "erase_Structure (Structure be name props doc ext mix) =
     Structure be name (map erase_Property props) doc ext mix"

definition erase_Model :: "Model \<Rightarrow> Model" where
  "erase_Model m = m\<lparr>Structures := map erase_Structure (Structures m)\<rparr>"

section \<open>Definitions for the statements\<close>

fun set_Property_Optional :: "Property \<Rightarrow> bool \<Rightarrow> Property" where
  "set_Property_Optional (Property be name ty opt) opt' = Property be name ty opt'"

definition field_of_Property :: "(string \<Rightarrow> string) \<Rightarrow> Property \<times> string \<Rightarrow> string" where
  "field_of_Property toGoPascal = (\<lambda>(p, typeName).
     field_line (toGoPascal (Property_Name p)) typeName (Property_Name p))"

definition Position_props :: "Property list" where
  "Position_props =
     [Property zero_BaseElement ''line'' (Some (Base zero_BaseElement ''string'')) False,
      Property zero_BaseElement ''character'' (Some (Base zero_BaseElement ''string'')) True]"

definition Position_out :: "string list" where
  "Position_out = struct_decl ''Position''
     [''line string '' @ [CHR 0x60] @ ''json:'' @ [CHR 0x22] @ ''line,omitempty'' @ [CHR 0x22],
      ''character string '' @ [CHR 0x60] @ ''json:'' @ [CHR 0x22] @ ''character,omitempty''
        @ [CHR 0x22]]"

definition Versioned :: Structure where
  "Versioned = Structure zero_BaseElement ''Versioned''
     [Property zero_BaseElement ''version'' (Some (Base zero_BaseElement ''integer'')) False,
      Property zero_BaseElement ''tags''
        (Some (Array zero_BaseElement (Some (Base zero_BaseElement ''string'')))) False]
     [] [] []"

definition catalog_AB :: Model where
  "catalog_AB = \<lparr>MetaData_Version = ''3.17.0'', Requests = [],
     Structures =
       [Structure zero_BaseElement ''A''
          [Property zero_BaseElement ''b'' (Some (Reference zero_BaseElement ''B'' None)) False,
           Property zero_BaseElement ''n'' (Some (Base zero_BaseElement ''string'')) True] [] [] [],
        Structure zero_BaseElement ''B''
          [Property zero_BaseElement ''x'' (Some (Base zero_BaseElement ''string'')) False] [] [] []],
     Enumerations = [Enumeration zero_BaseElement ''E'' (Some (Base zero_BaseElement ''string'')) [] False],
     Notifications = [],
     TypeAliases = [TypeAlias zero_BaseElement ''T'' (Some (Base zero_BaseElement ''string''))]\<rparr>"

definition resolved_B :: Structure where
  "resolved_B = Structure zero_BaseElement ''B''
     [Property zero_BaseElement ''x'' (Some (Base zero_BaseElement ''string'')) False] [] [] []"

definition resolved_A :: Structure where
  "resolved_A = Structure zero_BaseElement ''A''
     [Property zero_BaseElement ''b''
        (Some (Reference zero_BaseElement ''B'' (Some (AnyRef ''B'' (Some resolved_B) None None)))) False,
      Property zero_BaseElement ''n'' (Some (Base zero_BaseElement ''string'')) True] [] [] []"

definition catalog_AB_resolved :: Model where
  "catalog_AB_resolved = catalog_AB\<lparr>Structures := [resolved_A, resolved_B]\<rparr>"

definition catalog_broken :: Model where
  "catalog_broken = \<lparr>MetaData_Version = ''3.17.0'', Requests = [],
     Structures =
       [Structure zero_BaseElement ''A''
          [Property zero_BaseElement ''m'' (Some (Reference zero_BaseElement ''Missing'' None)) False]
          [] [] []],
     Enumerations = [], Notifications = [], TypeAliases = []\<rparr>"

definition catalog_collision :: Model where
  "catalog_collision = \<lparr>MetaData_Version = ''3.17.0'', Requests = [],
     Structures =
       [Structure zero_BaseElement ''X''
          [Property zero_BaseElement ''v'' (Some (Base zero_BaseElement ''string'')) False] [] [] []],
     Enumerations = [Enumeration zero_BaseElement ''X'' (Some (Base zero_BaseElement ''string'')) [] False],
     Notifications = [],
     TypeAliases = [TypeAlias zero_BaseElement ''X'' (Some (Base zero_BaseElement ''string''))]\<rparr>"

fun Schema_BaseElement :: "Schema \<Rightarrow> BaseElement" where
  "Schema_BaseElement (Base be _) = be"
| "Schema_BaseElement (Reference be _ _) = be"
| "Schema_BaseElement (Array be _) = be"
| "Schema_BaseElement (Or be _) = be"
| "Schema_BaseElement (And be _) = be"
| "Schema_BaseElement (Map be _ _) = be"
| "Schema_BaseElement (StringLiteral be _) = be"
| "Schema_BaseElement (Literal be _) = be"
| "Schema_BaseElement (Tuple be _) = be"

fun no_metadata :: "Schema \<Rightarrow> bool" where
  "no_metadata (Array be el) =
     (be = zero_BaseElement \<and> (case el of None \<Rightarrow> True | Some s \<Rightarrow> no_metadata s))"
| "no_metadata (Or be items) =
     (be = zero_BaseElement \<and> list_all (\<lambda>i. case i of None \<Rightarrow> True | Some s \<Rightarrow> no_metadata s) items)"
| "no_metadata (And be items) =
     (be = zero_BaseElement \<and> list_all (\<lambda>i. case i of None \<Rightarrow> True | Some s \<Rightarrow> no_metadata s) items)"
| "no_metadata (Map be k v) =
     (be = zero_BaseElement \<and> (case k of None \<Rightarrow> True | Some s \<Rightarrow> no_metadata s)
        \<and> (case v of None \<Rightarrow> True | Some s \<Rightarrow> no_metadata s))"
| "no_metadata (Tuple be items) =
     (be = zero_BaseElement \<and> list_all (\<lambda>i. case i of None \<Rightarrow> True | Some s \<Rightarrow> no_metadata s) items)"
| "no_metadata s = (Schema_BaseElement s = zero_BaseElement)"

definition lower :: "char \<Rightarrow> char" where
  "lower c =
     (let n = (of_char c :: nat) in if 65 \<le> n \<and> n \<le> 90 then char_of (n + 32) else c)"

definition equalFold_ascii :: "string \<Rightarrow> string \<Rightarrow> bool" where
  "equalFold_ascii s t = (map lower s = map lower t)"

definition documented_base :: json where
  "documented_base = JObject
     [(''kind'', JString ''base''), (''name'', JString ''string''),
      (''documentation'', JString ''The text.'')]"

definition Schema_kinds :: "string list" where
  "Schema_kinds = [''array'', ''or'', ''and'', ''reference'', ''base'', ''map'',
     ''stringLiteral'', ''literal'', ''tuple'']"

definition variant_fields :: "string list" where
  "variant_fields = [''kind'', ''name'', ''Found'', ''element'', ''items'', ''key'', ''value'']"

text \<open>
  \<open>position eqf b c\<close>: the fragment \<open>c\<close> stands at a Schema Node position of the fragment
  \<open>b\<close>: it is \<open>b\<close> itself, or it is reached from \<open>b\<close> through the \<^verbatim>\<open>element\<close> of an array
  node, an item of an or, and or tuple node, or the \<^verbatim>\<open>key\<close> or \<^verbatim>\<open>value\<close> of a map node.
\<close>

inductive position :: "(string \<Rightarrow> string \<Rightarrow> bool) \<Rightarrow> json \<Rightarrow> json \<Rightarrow> bool"
  for eqf :: "string \<Rightarrow> string \<Rightarrow> bool" where
  here: "position eqf b b"
| element: "explore eqf (JObject ms) = Inr ''array'' \<Longrightarrow> (k, v) \<in> set ms \<Longrightarrow>
     field_of eqf [''kind'', ''element''] k = Some ''element'' \<Longrightarrow> v \<noteq> JNull \<Longrightarrow>
     position eqf v c \<Longrightarrow> position eqf (JObject ms) c"
| item: "explore eqf (JObject ms) = Inr kind \<Longrightarrow> kind \<in> {''or'', ''and'', ''tuple''} \<Longrightarrow>
     (k, JArray xs) \<in> set ms \<Longrightarrow> field_of eqf [''kind'', ''items''] k = Some ''items'' \<Longrightarrow>
     x \<in> set xs \<Longrightarrow> x \<noteq> JNull \<Longrightarrow> position eqf x c \<Longrightarrow> position eqf (JObject ms) c"
| key_value: "explore eqf (JObject ms) = Inr ''map'' \<Longrightarrow> (k, v) \<in> set ms \<Longrightarrow>
     field_of eqf [''kind'', ''key'', ''value''] k = Some f \<Longrightarrow> f \<noteq> ''kind'' \<Longrightarrow> v \<noteq> JNull \<Longrightarrow>
     position eqf v c \<Longrightarrow> position eqf (JObject ms) c"

definition failing :: "derror + 'a \<times> derror option \<Rightarrow> bool" where
  "failing r = (case r of Inl e \<Rightarrow> True | Inr (x, saved) \<Rightarrow> saved \<noteq> None)"

definition opt_no_metadata :: "Schema option \<Rightarrow> bool" where
  "opt_no_metadata p = (case p of None \<Rightarrow> True | Some s \<Rightarrow> no_metadata s)"

definition array_of_strings :: json where
  "array_of_strings = JObject
     [(''kind'', JString ''array''),
      (''element'', JObject [(''kind'', JString ''base''), (''name'', JString ''string'')])]"

definition integer_kind :: json where
  "integer_kind = JObject [(''kind'', JString ''integer'')]"

definition array_of_integer_kind :: json where
  "array_of_integer_kind = JObject [(''kind'', JString ''array''), (''element'', integer_kind)]"


text \<open>
  The names \<^verbatim>\<open>ResolveRefs\<close> may look up in a node: those of the reference nodes reached
  through array, or, and, map and tuple nodes.
\<close>

fun refs_of :: "Schema \<Rightarrow> string list" where
  "refs_of (Reference be name fnd) = [name]"
| "refs_of (Array be el) = (case el of None \<Rightarrow> [] | Some s \<Rightarrow> refs_of s)"
| "refs_of (Or be items) = concat (map (\<lambda>i. case i of None \<Rightarrow> [] | Some s \<Rightarrow> refs_of s) items)"
| "refs_of (And be items) = concat (map (\<lambda>i. case i of None \<Rightarrow> [] | Some s \<Rightarrow> refs_of s) items)"
| "refs_of (Map be k v) =
     (case k of None \<Rightarrow> [] | Some s \<Rightarrow> refs_of s) @ (case v of None \<Rightarrow> [] | Some s \<Rightarrow> refs_of s)"
| "refs_of (Tuple be items) = concat (map (\<lambda>i. case i of None \<Rightarrow> [] | Some s \<Rightarrow> refs_of s) items)"
| "refs_of (Base be name) = []"
| "refs_of (StringLiteral be v) = []"
| "refs_of (Literal be v) = []"

definition refs_of_opt :: "Schema option \<Rightarrow> string list" where
  "refs_of_opt ty = (case ty of None \<Rightarrow> [] | Some s \<Rightarrow> refs_of s)"

text \<open>No nil pointer at a position \<^verbatim>\<open>ResolveRefs\<close> dereferences.\<close>

fun present :: "Schema \<Rightarrow> bool" where
  "present (Array be el) = (case el of None \<Rightarrow> False | Some s \<Rightarrow> present s)"
| "present (Or be items) = list_all (\<lambda>i. case i of None \<Rightarrow> False | Some s \<Rightarrow> present s) items"
| "present (And be items) = list_all (\<lambda>i. case i of None \<Rightarrow> False | Some s \<Rightarrow> present s) items"
| "present (Map be k v) =
     ((case k of None \<Rightarrow> False | Some s \<Rightarrow> present s) \<and> (case v of None \<Rightarrow> False | Some s \<Rightarrow> present s))"
| "present (Tuple be items) = list_all (\<lambda>i. case i of None \<Rightarrow> False | Some s \<Rightarrow> present s) items"
| "present (Reference be name fnd) = True"
| "present (Base be name) = True"
| "present (StringLiteral be v) = True"
| "present (Literal be v) = True"

definition present_opt :: "Schema option \<Rightarrow> bool" where
  "present_opt ty = (case ty of None \<Rightarrow> False | Some s \<Rightarrow> present s)"

definition structure_names :: "Model \<Rightarrow> string list" where
  "structure_names m = map Structure_Name (Structures m)"

definition defined_names :: "Model \<Rightarrow> string list" where
  "defined_names m = map Structure_Name (Structures m) @ map Enumeration_Name (Enumerations m)
     @ map TypeAlias_Name (TypeAliases m)"

text \<open>
  \<open>acyclic_from rank names m\<close>: \<open>names\<close> is closed under reference between structures, and
  \<open>rank\<close> decreases along each such reference.  For every name of \<open>names\<close>, every
  reference in a property of the structure that \<^verbatim>\<open>Structure\<close> finds under that name, if it
  names a structure, names one of \<open>names\<close> of smaller rank.
\<close>

definition acyclic_from :: "(string \<Rightarrow> nat) \<Rightarrow> string list \<Rightarrow> Model \<Rightarrow> bool" where
  "acyclic_from rank names m =
     (\<forall>name \<in> set names.
        case find (\<lambda>s. Structure_Name s = name) (Structures m) of
          None \<Rightarrow> True
        | Some s \<Rightarrow>
            (\<forall>p \<in> set (Properties s). \<forall>r \<in> set (refs_of_opt (Property_Type p)).
               r \<in> set (structure_names m) \<longrightarrow> r \<in> set names \<and> rank r < rank name))"

text \<open>
  \<open>resolvable_from names m\<close>: for every name of \<open>names\<close>, every property of the structure
  found under that name has a type without nil pointers, all of whose references name a
  structure, an enumeration or a type alias of the catalog.
\<close>

definition resolvable_from :: "string list \<Rightarrow> Model \<Rightarrow> bool" where
  "resolvable_from names m =
     (\<forall>name \<in> set names.
        case find (\<lambda>s. Structure_Name s = name) (Structures m) of
          None \<Rightarrow> True
        | Some s \<Rightarrow>
            (\<forall>p \<in> set (Properties s). present_opt (Property_Type p) \<and>
               (\<forall>r \<in> set (refs_of_opt (Property_Type p)). r \<in> set (defined_names m))))"


definition rank_AB :: "string \<Rightarrow> nat" where
  "rank_AB name = (if name = ''A'' then 1 else 0)"

text \<open>
  \<open>emits toGoPascal ty\<close>: the property type \<open>ty\<close> does not make \<^verbatim>\<open>PrintStruct\<close> panic:
  it is not nil, and if it is a reference, its handle is set, to a structure whose own
  emission does not panic, or to an enumeration or a type alias.
\<close>

definition emits :: "(string \<Rightarrow> string) \<Rightarrow> Schema option \<Rightarrow> bool" where
  "emits toGoPascal ty =
     (case ty of
        None \<Rightarrow> False
      | Some (Reference be name fnd) \<Rightarrow>
          (case fnd of
             None \<Rightarrow> False
           | Some (AnyRef an st en al) \<Rightarrow>
              (case st of
                 Some s \<Rightarrow> (\<forall>out. snd (PrintStruct toGoPascal s out) = None)
               | None \<Rightarrow> en \<noteq> None \<or> al \<noteq> None))
      | Some _ \<Rightarrow> True)"

definition keeps_emitting :: "(string \<Rightarrow> string) \<Rightarrow> Model \<Rightarrow> Model \<Rightarrow> bool" where
  "keeps_emitting toGoPascal m m' =
     (\<forall>i j. emits toGoPascal (Type_at m i j) \<longrightarrow> emits toGoPascal (Type_at m' i j))"

definition catalog_tree :: Model where
  "catalog_tree = \<lparr>MetaData_Version = ''3.17.0'', Requests = [],
     Structures =
       [Structure zero_BaseElement ''DocumentSymbol''
          [Property zero_BaseElement ''name'' (Some (Base zero_BaseElement ''string'')) False,
           Property zero_BaseElement ''children''
             (Some (Array zero_BaseElement
                (Some (Reference zero_BaseElement ''DocumentSymbol'' None)))) True]
          [] [] []],
     Enumerations = [], Notifications = [], TypeAliases = []\<rparr>"

text \<open>
  The decoding of the whole document, \<^verbatim>\<open>unmarshalStrict(b, &model)\<close> in \<^verbatim>\<open>fetchMetaModel\<close>:
  \<^verbatim>\<open>encoding/json\<close> walks the document along the Go types \<^verbatim>\<open>Model\<close>, \<^verbatim>\<open>MetaData\<close>,
  \<^verbatim>\<open>Request\<close>, \<^verbatim>\<open>Structure\<close>, \<^verbatim>\<open>Property\<close>, \<^verbatim>\<open>Enumeration\<close>, \<^verbatim>\<open>TypeAlias\<close> and
  \<^verbatim>\<open>BaseElement\<close>, strictly, and calls \<^verbatim>\<open>Schema.UnmarshalJSON\<close> for every member that goes
  to a \<^verbatim>\<open>*Schema\<close>.  The functions below follow the declarations of these types, field by
  field, with the conventions of the node decoder: the first type error or unknown field
  is kept in \<open>saved\<close> and returned at the end, an error of \<^verbatim>\<open>UnmarshalJSON\<close> stops the
  decoding (\<open>Inl\<close>), a repeated field takes the value of its last member.

  Fields of the basic types: \<^verbatim>\<open>bool\<close>, \<^verbatim>\<open>*string\<close> (the pointer is allocated before the
  value is looked at), \<^verbatim>\<open>[]string\<close>, \<^verbatim>\<open>[]interface{}\<close> and \<^verbatim>\<open>[]*Schema\<close>; \<^verbatim>\<open>null\<close> gives the
  nil pointer, the nil slice, and leaves a \<^verbatim>\<open>bool\<close> or a \<^verbatim>\<open>string\<close> as it is.
\<close>

definition store_bool :: "string \<Rightarrow> json \<Rightarrow> bool \<Rightarrow> derror option \<Rightarrow> bool \<times> derror option" where
  "store_bool field v cur saved =
     (case v of
        JBool b \<Rightarrow> (b, saved)
      | JNull \<Rightarrow> (cur, saved)
      | _ \<Rightarrow> (cur, save saved (UnmarshalTypeError field)))"

definition store_string_pointer ::
  "string \<Rightarrow> json \<Rightarrow> string option \<Rightarrow> derror option \<Rightarrow> string option \<times> derror option" where
  "store_string_pointer field v cur saved =
     (case v of
        JString s \<Rightarrow> (Some s, saved)
      | JNull \<Rightarrow> (None, saved)
      | _ \<Rightarrow> (Some (case cur of None \<Rightarrow> [] | Some s \<Rightarrow> s), save saved (UnmarshalTypeError field)))"

fun string_elements :: "string \<Rightarrow> json list \<Rightarrow> derror option \<Rightarrow> string list \<times> derror option" where
  "string_elements field [] saved = ([], saved)"
| "string_elements field (x # xs) saved =
     (case store_string field x [] saved of
        (s, saved') \<Rightarrow>
          (case string_elements field xs saved' of (ss, saved'') \<Rightarrow> (s # ss, saved'')))"

definition store_strings ::
  "string \<Rightarrow> json \<Rightarrow> string list \<Rightarrow> derror option \<Rightarrow> string list \<times> derror option" where
  "store_strings field v cur saved =
     (case v of
        JArray xs \<Rightarrow> string_elements field xs saved
      | JNull \<Rightarrow> ([], saved)
      | _ \<Rightarrow> (cur, save saved (UnmarshalTypeError field)))"

definition store_values ::
  "string \<Rightarrow> json \<Rightarrow> json list \<Rightarrow> derror option \<Rightarrow> json list \<times> derror option" where
  "store_values field v cur saved =
     (case v of
        JArray xs \<Rightarrow> (xs, saved)
      | JNull \<Rightarrow> ([], saved)
      | _ \<Rightarrow> (cur, save saved (UnmarshalTypeError field)))"

definition store_pointers ::
  "(json \<Rightarrow> derror + Schema) \<Rightarrow> string \<Rightarrow> json \<Rightarrow> Schema option list \<Rightarrow> derror option
     \<Rightarrow> derror + Schema option list \<times> derror option" where
  "store_pointers dec field v cur saved =
     (case v of
        JArray xs \<Rightarrow>
          (case unmarshal_pointers dec xs of
             Inl e \<Rightarrow> Inl e
           | Inr ps \<Rightarrow> Inr (ps, saved))
      | JNull \<Rightarrow> Inr ([], saved)
      | _ \<Rightarrow> Inr (cur, save saved (UnmarshalTypeError field)))"

text \<open>
  A struct: \<open>member\<close> decodes one member of the object into the struct held so far.
  \<open>struct_value\<close> is a value decoded into a struct, \<open>struct_slice\<close> one decoded into a
  slice of structs, each element starting from the zero value \<open>zero\<close>, as it does for a
  slice that was nil (the library decodes the elements of a repeated member into the
  elements the slice holds already).
\<close>

fun object_members ::
  "(string \<Rightarrow> json \<Rightarrow> 'a \<Rightarrow> derror option \<Rightarrow> derror + 'a \<times> derror option)
     \<Rightarrow> (string \<times> json) list \<Rightarrow> 'a \<Rightarrow> derror option \<Rightarrow> derror + 'a \<times> derror option" where
  "object_members member [] cur saved = Inr (cur, saved)"
| "object_members member ((k, v) # ms) cur saved =
     (case member k v cur saved of
        Inl e \<Rightarrow> Inl e
      | Inr (cur', saved') \<Rightarrow> object_members member ms cur' saved')"

definition struct_value ::
  "(string \<Rightarrow> json \<Rightarrow> 'a \<Rightarrow> derror option \<Rightarrow> derror + 'a \<times> derror option)
     \<Rightarrow> string \<Rightarrow> json \<Rightarrow> 'a \<Rightarrow> derror option \<Rightarrow> derror + 'a \<times> derror option" where
  "struct_value member field v cur saved =
     (case v of
        JObject ms \<Rightarrow> object_members member ms cur saved
      | JNull \<Rightarrow> Inr (cur, saved)
      | _ \<Rightarrow> Inr (cur, save saved (UnmarshalTypeError field)))"

fun struct_elements ::
  "(string \<Rightarrow> json \<Rightarrow> 'a \<Rightarrow> derror option \<Rightarrow> derror + 'a \<times> derror option)
     \<Rightarrow> string \<Rightarrow> 'a \<Rightarrow> json list \<Rightarrow> derror option \<Rightarrow> derror + 'a list \<times> derror option" where
  "struct_elements member field zero [] saved = Inr ([], saved)"
| "struct_elements member field zero (x # xs) saved =
     (case struct_value member field x zero saved of
        Inl e \<Rightarrow> Inl e
      | Inr (a, saved') \<Rightarrow>
         (case struct_elements member field zero xs saved' of
            Inl e \<Rightarrow> Inl e
          | Inr (as, saved'') \<Rightarrow> Inr (a # as, saved'')))"

definition struct_slice ::
  "(string \<Rightarrow> json \<Rightarrow> 'a \<Rightarrow> derror option \<Rightarrow> derror + 'a \<times> derror option)
     \<Rightarrow> string \<Rightarrow> 'a \<Rightarrow> json \<Rightarrow> 'a list \<Rightarrow> derror option \<Rightarrow> derror + 'a list \<times> derror option" where
  "struct_slice member field zero v cur saved =
     (case v of
        JArray xs \<Rightarrow> struct_elements member field zero xs saved
      | JNull \<Rightarrow> Inr ([], saved)
      | _ \<Rightarrow> Inr (cur, save saved (UnmarshalTypeError field)))"

text \<open>
  The fields each struct offers to the decoder, by their names in the document: those of
  the embedded \<^verbatim>\<open>BaseElement\<close>, then its own.  In \<^verbatim>\<open>Structure\<close> the name
  \<^verbatim>\<open>documentation\<close> is that of the field \<^verbatim>\<open>Documentations\<close>, which hides the embedded one.
\<close>

definition BaseElement_fields :: "string list" where
  "BaseElement_fields = [''since'', ''proposed'', ''deprecated'', ''documentation'', ''sinceTags'']"

definition Property_fields :: "string list" where
  "Property_fields = BaseElement_fields @ [''name'', ''type'', ''optional'']"

definition Structure_fields :: "string list" where
  "Structure_fields = [''since'', ''proposed'', ''deprecated'', ''sinceTags'',
     ''name'', ''properties'', ''documentation'', ''extends'', ''mixins'']"

definition Enumeration_fields :: "string list" where
  "Enumeration_fields = BaseElement_fields @ [''name'', ''type'', ''values'', ''supportsCustomValues'']"

definition TypeAlias_fields :: "string list" where
  "TypeAlias_fields = BaseElement_fields @ [''name'', ''type'']"

definition Request_fields :: "string list" where
  "Request_fields = BaseElement_fields @ [''method'', ''typeName'', ''result'', ''messageDirection'',
     ''params'', ''partialResult'', ''registrationOptions'', ''registrationMethod'', ''errorData'']"

definition Model_fields :: "string list" where
  "Model_fields = [''metaData'', ''requests'', ''structures'', ''enumerations'', ''notifications'',
     ''typeAliases'']"

definition store_BaseElement ::
  "string \<Rightarrow> json \<Rightarrow> BaseElement \<Rightarrow> derror option \<Rightarrow> BaseElement \<times> derror option" where
  "store_BaseElement f v be saved =
     (if f = ''since'' then
        (case store_string_pointer f v (Since be) saved of (x, saved') \<Rightarrow> (be\<lparr>Since := x\<rparr>, saved'))
      else if f = ''proposed'' then
        (case store_bool f v (Proposed be) saved of (x, saved') \<Rightarrow> (be\<lparr>Proposed := x\<rparr>, saved'))
      else if f = ''deprecated'' then
        (case store_string_pointer f v (Deprecated be) saved of
           (x, saved') \<Rightarrow> (be\<lparr>Deprecated := x\<rparr>, saved'))
      else if f = ''documentation'' then
        (case store_string_pointer f v (Documentation be) saved of
           (x, saved') \<Rightarrow> (be\<lparr>Documentation := x\<rparr>, saved'))
      else
        (case store_strings ''sinceTags'' v (SinceTags be) saved of
           (x, saved') \<Rightarrow> (be\<lparr>SinceTags := x\<rparr>, saved')))"

fun Property_member ::
  "(string \<Rightarrow> string \<Rightarrow> bool) \<Rightarrow> (json \<Rightarrow> derror + AnyRef option) \<Rightarrow> string \<Rightarrow> json \<Rightarrow> Property
     \<Rightarrow> derror option \<Rightarrow> derror + Property \<times> derror option" where
  "Property_member eqf df k v (Property be name ty opt) saved =
     (case field_of eqf Property_fields k of
        None \<Rightarrow> Inr (Property be name ty opt, save saved (UnknownField k))
      | Some f \<Rightarrow>
         (if f = ''name'' then
            (case store_string f v name saved of
               (name', saved') \<Rightarrow> Inr (Property be name' ty opt, saved'))
          else if f = ''type'' then
            (case unmarshal_pointer (UnmarshalJSON eqf df) v of
               Inl e \<Rightarrow> Inl e
             | Inr ty' \<Rightarrow> Inr (Property be name ty' opt, saved))
          else if f = ''optional'' then
            (case store_bool f v opt saved of
               (opt', saved') \<Rightarrow> Inr (Property be name ty opt', saved'))
          else
            (case store_BaseElement f v be saved of
               (be', saved') \<Rightarrow> Inr (Property be' name ty opt, saved'))))"

definition zero_Property :: Property where
  "zero_Property = Property zero_BaseElement [] None False"

fun Structure_member ::
  "(string \<Rightarrow> string \<Rightarrow> bool) \<Rightarrow> (json \<Rightarrow> derror + AnyRef option) \<Rightarrow> string \<Rightarrow> json \<Rightarrow> Structure
     \<Rightarrow> derror option \<Rightarrow> derror + Structure \<times> derror option" where
  "Structure_member eqf df k v (Structure be name props doc ext mix) saved =
     (case field_of eqf Structure_fields k of
        None \<Rightarrow> Inr (Structure be name props doc ext mix, save saved (UnknownField k))
      | Some f \<Rightarrow>
         (if f = ''name'' then
            (case store_string f v name saved of
               (name', saved') \<Rightarrow> Inr (Structure be name' props doc ext mix, saved'))
          else if f = ''properties'' then
            (case struct_slice (Property_member eqf df) f zero_Property v props saved of
               Inl e \<Rightarrow> Inl e
             | Inr (props', saved') \<Rightarrow> Inr (Structure be name props' doc ext mix, saved'))
          else if f = ''documentation'' then
            (case store_string f v doc saved of
               (doc', saved') \<Rightarrow> Inr (Structure be name props doc' ext mix, saved'))
          else if f = ''extends'' then
            (case store_pointers (UnmarshalJSON eqf df) f v ext saved of
               Inl e \<Rightarrow> Inl e
             | Inr (ext', saved') \<Rightarrow> Inr (Structure be name props doc ext' mix, saved'))
          else if f = ''mixins'' then
            (case store_pointers (UnmarshalJSON eqf df) f v mix saved of
               Inl e \<Rightarrow> Inl e
             | Inr (mix', saved') \<Rightarrow> Inr (Structure be name props doc ext mix', saved'))
          else
            (case store_BaseElement f v be saved of
               (be', saved') \<Rightarrow> Inr (Structure be' name props doc ext mix, saved'))))"

definition zero_Structure :: Structure where
  "zero_Structure = Structure zero_BaseElement [] [] [] [] []"

fun Enumeration_member ::
  "(string \<Rightarrow> string \<Rightarrow> bool) \<Rightarrow> (json \<Rightarrow> derror + AnyRef option) \<Rightarrow> string \<Rightarrow> json \<Rightarrow> Enumeration
     \<Rightarrow> derror option \<Rightarrow> derror + Enumeration \<times> derror option" where
  "Enumeration_member eqf df k v (Enumeration be name ty vals custom) saved =
     (case field_of eqf Enumeration_fields k of
        None \<Rightarrow> Inr (Enumeration be name ty vals custom, save saved (UnknownField k))
      | Some f \<Rightarrow>
         (if f = ''name'' then
            (case store_string f v name saved of
               (name', saved') \<Rightarrow> Inr (Enumeration be name' ty vals custom, saved'))
          else if f = ''type'' then
            (case unmarshal_pointer (UnmarshalJSON eqf df) v of
               Inl e \<Rightarrow> Inl e
             | Inr ty' \<Rightarrow> Inr (Enumeration be name ty' vals custom, saved))
          else if f = ''values'' then
            (case store_values f v vals saved of
               (vals', saved') \<Rightarrow> Inr (Enumeration be name ty vals' custom, saved'))
          else if f = ''supportsCustomValues'' then
            (case store_bool f v custom saved of
               (custom', saved') \<Rightarrow> Inr (Enumeration be name ty vals custom', saved'))
          else
            (case store_BaseElement f v be saved of
               (be', saved') \<Rightarrow> Inr (Enumeration be' name ty vals custom, saved'))))"

definition zero_Enumeration :: Enumeration where
  "zero_Enumeration = Enumeration zero_BaseElement [] None [] False"

fun TypeAlias_member ::
  "(string \<Rightarrow> string \<Rightarrow> bool) \<Rightarrow> (json \<Rightarrow> derror + AnyRef option) \<Rightarrow> string \<Rightarrow> json \<Rightarrow> TypeAlias
     \<Rightarrow> derror option \<Rightarrow> derror + TypeAlias \<times> derror option" where
  "TypeAlias_member eqf df k v (TypeAlias be name ty) saved =
     (case field_of eqf TypeAlias_fields k of
        None \<Rightarrow> Inr (TypeAlias be name ty, save saved (UnknownField k))
      | Some f \<Rightarrow>
         (if f = ''name'' then
            (case store_string f v name saved of
               (name', saved') \<Rightarrow> Inr (TypeAlias be name' ty, saved'))
          else if f = ''type'' then
            (case unmarshal_pointer (UnmarshalJSON eqf df) v of
               Inl e \<Rightarrow> Inl e
             | Inr ty' \<Rightarrow> Inr (TypeAlias be name ty', saved))
          else
            (case store_BaseElement f v be saved of
               (be', saved') \<Rightarrow> Inr (TypeAlias be' name ty, saved'))))"

definition zero_TypeAlias :: TypeAlias where
  "zero_TypeAlias = TypeAlias zero_BaseElement [] None"

definition Request_member ::
  "(string \<Rightarrow> string \<Rightarrow> bool) \<Rightarrow> (json \<Rightarrow> derror + AnyRef option) \<Rightarrow> string \<Rightarrow> json \<Rightarrow> Request
     \<Rightarrow> derror option \<Rightarrow> derror + Request \<times> derror option" where
  "Request_member eqf df k v r saved =
     (case field_of eqf Request_fields k of
        None \<Rightarrow> Inr (r, save saved (UnknownField k))
      | Some f \<Rightarrow>
         (if f = ''method'' then
            (case store_string f v (Method r) saved of
               (x, saved') \<Rightarrow> Inr (r\<lparr>Method := x\<rparr>, saved'))
          else if f = ''typeName'' then
            (case store_string f v (TypeName r) saved of
               (x, saved') \<Rightarrow> Inr (r\<lparr>TypeName := x\<rparr>, saved'))
          else if f = ''result'' then
            (case unmarshal_pointer (UnmarshalJSON eqf df) v of
               Inl e \<Rightarrow> Inl e
             | Inr x \<Rightarrow> Inr (r\<lparr>Result := x\<rparr>, saved))
          else if f = ''messageDirection'' then
            (case store_string f v (Direction r) saved of
               (x, saved') \<Rightarrow> Inr (r\<lparr>Direction := x\<rparr>, saved'))
          else if f = ''params'' then
            (case unmarshal_pointer (UnmarshalJSON eqf df) v of
               Inl e \<Rightarrow> Inl e
             | Inr x \<Rightarrow> Inr (r\<lparr>Params := x\<rparr>, saved))
          else if f = ''partialResult'' then
            (case unmarshal_pointer (UnmarshalJSON eqf df) v of
               Inl e \<Rightarrow> Inl e
             | Inr x \<Rightarrow> Inr (r\<lparr>PartialResult := x\<rparr>, saved))
          else if f = ''registrationOptions'' then
            (case unmarshal_pointer (UnmarshalJSON eqf df) v of
               Inl e \<Rightarrow> Inl e
             | Inr x \<Rightarrow> Inr (r\<lparr>RegistrationOptions := x\<rparr>, saved))
          else if f = ''registrationMethod'' then
            (case store_string f v (RegistrationMethod r) saved of
               (x, saved') \<Rightarrow> Inr (r\<lparr>RegistrationMethod := x\<rparr>, saved'))
          else if f = ''errorData'' then
            (case unmarshal_pointer (UnmarshalJSON eqf df) v of
               Inl e \<Rightarrow> Inl e
             | Inr x \<Rightarrow> Inr (r\<lparr>ErrorData := x\<rparr>, saved))
          else
            (case store_BaseElement f v (Request_BaseElement r) saved of
               (be', saved') \<Rightarrow> Inr (r\<lparr>Request_BaseElement := be'\<rparr>, saved'))))"

definition zero_Request :: Request where
  "zero_Request = \<lparr>Request_BaseElement = zero_BaseElement, Method = [], TypeName = [],
     Result = None, Direction = [], Params = None, PartialResult = None,
     RegistrationOptions = None, RegistrationMethod = [], ErrorData = None\<rparr>"

text \<open>\<^verbatim>\<open>MetaData\<close> has the one field \<^verbatim>\<open>version\<close>; the struct is held as that string.\<close>

definition MetaData_member ::
  "(string \<Rightarrow> string \<Rightarrow> bool) \<Rightarrow> string \<Rightarrow> json \<Rightarrow> string \<Rightarrow> derror option
     \<Rightarrow> derror + string \<times> derror option" where
  "MetaData_member eqf k v version saved =
     (case field_of eqf [''version''] k of
        None \<Rightarrow> Inr (version, save saved (UnknownField k))
      | Some f \<Rightarrow> Inr (store_string f v version saved))"

definition Model_member ::
  "(string \<Rightarrow> string \<Rightarrow> bool) \<Rightarrow> (json \<Rightarrow> derror + AnyRef option) \<Rightarrow> string \<Rightarrow> json \<Rightarrow> Model
     \<Rightarrow> derror option \<Rightarrow> derror + Model \<times> derror option" where
  "Model_member eqf df k v m saved =
     (case field_of eqf Model_fields k of
        None \<Rightarrow> Inr (m, save saved (UnknownField k))
      | Some f \<Rightarrow>
         (if f = ''metaData'' then
            (case struct_value (MetaData_member eqf) f v (MetaData_Version m) saved of
               Inl e \<Rightarrow> Inl e
             | Inr (x, saved') \<Rightarrow> Inr (m\<lparr>MetaData_Version := x\<rparr>, saved'))
          else if f = ''requests'' then
            (case struct_slice (Request_member eqf df) f zero_Request v (Requests m) saved of
               Inl e \<Rightarrow> Inl e
             | Inr (x, saved') \<Rightarrow> Inr (m\<lparr>Requests := x\<rparr>, saved'))
          else if f = ''structures'' then
            (case struct_slice (Structure_member eqf df) f zero_Structure v (Structures m) saved of
               Inl e \<Rightarrow> Inl e
             | Inr (x, saved') \<Rightarrow> Inr (m\<lparr>Structures := x\<rparr>, saved'))
          else if f = ''enumerations'' then
            (case struct_slice (Enumeration_member eqf df) f zero_Enumeration v (Enumerations m) saved of
               Inl e \<Rightarrow> Inl e
             | Inr (x, saved') \<Rightarrow> Inr (m\<lparr>Enumerations := x\<rparr>, saved'))
          else if f = ''notifications'' then
            (case struct_slice (Request_member eqf df) f zero_Request v (Notifications m) saved of
               Inl e \<Rightarrow> Inl e
             | Inr (x, saved') \<Rightarrow> Inr (m\<lparr>Notifications := x\<rparr>, saved'))
          else
            (case struct_slice (TypeAlias_member eqf df) f zero_TypeAlias v (TypeAliases m) saved of
               Inl e \<Rightarrow> Inl e
             | Inr (x, saved') \<Rightarrow> Inr (m\<lparr>TypeAliases := x\<rparr>, saved'))))"

definition zero_Model :: Model where
  "zero_Model = \<lparr>MetaData_Version = [], Requests = [], Structures = [], Enumerations = [],
     Notifications = [], TypeAliases = []\<rparr>"

text \<open>
  \<^verbatim>\<open>unmarshalStrict(b, &model)\<close> with \<^verbatim>\<open>model := &Model{}\<close>, the one call of
  \<^verbatim>\<open>unmarshalStrict\<close> outside \<^verbatim>\<open>UnmarshalJSON\<close>: the error, or the model decoded, which is
  nil for the document \<^verbatim>\<open>null\<close>.
\<close>

definition unmarshalStrict ::
  "(string \<Rightarrow> string \<Rightarrow> bool) \<Rightarrow> (json \<Rightarrow> derror + AnyRef option) \<Rightarrow> json \<Rightarrow> derror + Model option" where
  "unmarshalStrict eqf df b =
     (case b of
        JObject ms \<Rightarrow>
          (case object_members (Model_member eqf df) ms zero_Model None of
             Inl e \<Rightarrow> Inl e
           | Inr (m, None) \<Rightarrow> Inr (Some m)
           | Inr (m, Some e) \<Rightarrow> Inl e)
      | JNull \<Rightarrow> Inr None
      | _ \<Rightarrow> Inl (UnmarshalTypeError ''Model''))"

text \<open>
  \<^verbatim>\<open>fetchMetaModel\<close> and \<^verbatim>\<open>run\<close>.  The network fetch is outside the repository: \<open>got\<close> is
  what \<^verbatim>\<open>httpGet\<close> returns (an error or the bytes) and \<open>unmarshal\<close> is the decoding of the
  bytes, for the program \<open>unmarshalStrict eqf df\<close> on the JSON value that the bytes spell.
  \<open>run\<close> yields what was written to the output and how the run ended: with a returned
  error, with \<open>Inr None\<close> for the return of nil, or with a panic; \<open>None\<close> says that
  \<^verbatim>\<open>Structure\<close> did not return within the depth \<open>n\<close>.
\<close>

datatype run_error = TransportError string | DecodeError derror | ResolutionError error

definition fetchMetaModel ::
  "string + 'b \<Rightarrow> ('b \<Rightarrow> derror + Model option) \<Rightarrow> run_error + Model option" where
  "fetchMetaModel got unmarshal =
     (case got of
        Inl e \<Rightarrow> Inl (TransportError e)
      | Inr b \<Rightarrow>
         (case unmarshal b of
            Inl e \<Rightarrow> Inl (DecodeError e)
          | Inr model \<Rightarrow> Inr model))"

definition run ::
  "string + 'b \<Rightarrow> ('b \<Rightarrow> derror + Model option) \<Rightarrow> (string \<Rightarrow> string) \<Rightarrow> nat
     \<Rightarrow> (string list \<times> (run_error + panic option)) option" where
  "run got unmarshal toGoPascal n =
     (case fetchMetaModel got unmarshal of
        Inl e \<Rightarrow> Some ([], Inl e)
      | Inr None \<Rightarrow> Some ([], Inr (Some NilPointerPanic))
      | Inr (Some model) \<Rightarrow>
         (case Model_Structure n model ''Diagnostic'' of
            None \<Rightarrow> None
          | Some (m', Inl NilDereference) \<Rightarrow> Some ([], Inr (Some NilPointerPanic))
          | Some (m', Inl e) \<Rightarrow> Some ([], Inl (ResolutionError e))
          | Some (m', Inr diag) \<Rightarrow>
             (case PrintStruct toGoPascal diag [] of (out, pn) \<Rightarrow> Some (out, Inr pn))))"

text \<open>
  The Schema Node positions of a document: the places whose value the decoder hands to
  \<^verbatim>\<open>Schema.UnmarshalJSON\<close>, which are the members that go to a field of type \<^verbatim>\<open>*Schema\<close> or
  \<^verbatim>\<open>[]*Schema\<close> of a property, structure, enumeration, type alias, request or
  notification, and from there on the positions inside that fragment.
  \<open>Schema_position eqf doc c\<close> says that the fragment \<open>c\<close> stands at such a position of the
  document \<open>doc\<close>.
\<close>

inductive Property_position :: "(string \<Rightarrow> string \<Rightarrow> bool) \<Rightarrow> json \<Rightarrow> json \<Rightarrow> bool"
  for eqf :: "string \<Rightarrow> string \<Rightarrow> bool" where
  property_type: "(k, v) \<in> set ms \<Longrightarrow> field_of eqf Property_fields k = Some ''type'' \<Longrightarrow>
     v \<noteq> JNull \<Longrightarrow> position eqf v c \<Longrightarrow> Property_position eqf (JObject ms) c"

inductive Structure_position :: "(string \<Rightarrow> string \<Rightarrow> bool) \<Rightarrow> json \<Rightarrow> json \<Rightarrow> bool"
  for eqf :: "string \<Rightarrow> string \<Rightarrow> bool" where
  properties: "(k, JArray ps) \<in> set ms \<Longrightarrow> field_of eqf Structure_fields k = Some ''properties'' \<Longrightarrow>
     p \<in> set ps \<Longrightarrow> Property_position eqf p c \<Longrightarrow> Structure_position eqf (JObject ms) c"
| extends: "(k, JArray xs) \<in> set ms \<Longrightarrow> field_of eqf Structure_fields k = Some ''extends'' \<Longrightarrow>
     x \<in> set xs \<Longrightarrow> x \<noteq> JNull \<Longrightarrow> position eqf x c \<Longrightarrow> Structure_position eqf (JObject ms) c"
| mixins: "(k, JArray xs) \<in> set ms \<Longrightarrow> field_of eqf Structure_fields k = Some ''mixins'' \<Longrightarrow>
     x \<in> set xs \<Longrightarrow> x \<noteq> JNull \<Longrightarrow> position eqf x c \<Longrightarrow> Structure_position eqf (JObject ms) c"

inductive Enumeration_position :: "(string \<Rightarrow> string \<Rightarrow> bool) \<Rightarrow> json \<Rightarrow> json \<Rightarrow> bool"
  for eqf :: "string \<Rightarrow> string \<Rightarrow> bool" where
  enumeration_type: "(k, v) \<in> set ms \<Longrightarrow> field_of eqf Enumeration_fields k = Some ''type'' \<Longrightarrow>
     v \<noteq> JNull \<Longrightarrow> position eqf v c \<Longrightarrow> Enumeration_position eqf (JObject ms) c"

inductive TypeAlias_position :: "(string \<Rightarrow> string \<Rightarrow> bool) \<Rightarrow> json \<Rightarrow> json \<Rightarrow> bool"
  for eqf :: "string \<Rightarrow> string \<Rightarrow> bool" where
  alias_type: "(k, v) \<in> set ms \<Longrightarrow> field_of eqf TypeAlias_fields k = Some ''type'' \<Longrightarrow>
     v \<noteq> JNull \<Longrightarrow> position eqf v c \<Longrightarrow> TypeAlias_position eqf (JObject ms) c"

inductive Request_position :: "(string \<Rightarrow> string \<Rightarrow> bool) \<Rightarrow> json \<Rightarrow> json \<Rightarrow> bool"
  for eqf :: "string \<Rightarrow> string \<Rightarrow> bool" where
  request_schema: "(k, v) \<in> set ms \<Longrightarrow> field_of eqf Request_fields k = Some f \<Longrightarrow>
     f \<in> {''result'', ''params'', ''partialResult'', ''registrationOptions'', ''errorData''} \<Longrightarrow>
     v \<noteq> JNull \<Longrightarrow> position eqf v c \<Longrightarrow> Request_position eqf (JObject ms) c"

inductive Schema_position :: "(string \<Rightarrow> string \<Rightarrow> bool) \<Rightarrow> json \<Rightarrow> json \<Rightarrow> bool"
  for eqf :: "string \<Rightarrow> string \<Rightarrow> bool" where
  in_request: "(k, JArray xs) \<in> set ms \<Longrightarrow> field_of eqf Model_fields k = Some f \<Longrightarrow>
     f \<in> {''requests'', ''notifications''} \<Longrightarrow> x \<in> set xs \<Longrightarrow> Request_position eqf x c \<Longrightarrow>
     Schema_position eqf (JObject ms) c"
| in_structure: "(k, JArray xs) \<in> set ms \<Longrightarrow> field_of eqf Model_fields k = Some ''structures'' \<Longrightarrow>
     x \<in> set xs \<Longrightarrow> Structure_position eqf x c \<Longrightarrow> Schema_position eqf (JObject ms) c"
| in_enumeration: "(k, JArray xs) \<in> set ms \<Longrightarrow> field_of eqf Model_fields k = Some ''enumerations'' \<Longrightarrow>
     x \<in> set xs \<Longrightarrow> Enumeration_position eqf x c \<Longrightarrow> Schema_position eqf (JObject ms) c"
| in_type_alias: "(k, JArray xs) \<in> set ms \<Longrightarrow> field_of eqf Model_fields k = Some ''typeAliases'' \<Longrightarrow>
     x \<in> set xs \<Longrightarrow> TypeAlias_position eqf x c \<Longrightarrow> Schema_position eqf (JObject ms) c"

text \<open>
  A document whose one structure has a property \<^verbatim>\<open>code\<close> of the kind \<^verbatim>\<open>integer\<close>.
\<close>

definition document_integer_kind :: json where
  "document_integer_kind =
     JObject [(''metaData'', JObject [(''version'', JString ''3.17.0'')]),
              (''structures'', JArray
                 [JObject [(''name'', JString ''Diagnostic''),
                           (''properties'', JArray
                              [JObject [(''name'', JString ''code''),
                                        (''type'', integer_kind)]])]])]"

text \<open>
  The same document with the property of the kind \<^verbatim>\<open>base\<close>, name \<^verbatim>\<open>string\<close>, and with
  members of the other basic types.
\<close>

definition document_string_kind :: json where
  "document_string_kind =
     JObject [(''metaData'', JObject [(''version'', JString ''3.17.0'')]),
              (''structures'', JArray
                 [JObject [(''name'', JString ''Diagnostic''),
                           (''properties'', JArray
                              [JObject [(''name'', JString ''code''),
                                        (''type'', JObject [(''kind'', JString ''base''),
                                                           (''name'', JString ''string'')]),
                                        (''optional'', JBool True),
                                        (''documentation'', JString ''The code.'')]]),
                           (''documentation'', JString ''A diagnostic.'')]]),
              (''enumerations'', JArray []),
              (''typeAliases'', JNull)]"

definition catalog_collision_broken :: Model where
  "catalog_collision_broken = \<lparr>MetaData_Version = ''3.17.0'', Requests = [],
     Structures =
       [Structure zero_BaseElement ''X''
          [Property zero_BaseElement ''m'' (Some (Reference zero_BaseElement ''Missing'' None)) False]
          [] [] []],
     Enumerations = [Enumeration zero_BaseElement ''X'' (Some (Base zero_BaseElement ''string'')) [] False],
     Notifications = [],
     TypeAliases = [TypeAlias zero_BaseElement ''X'' (Some (Base zero_BaseElement ''string''))]\<rparr>"

section \<open>Lemmas and claims\<close>

declare Model_AnyRef.simps [simp del] Model_Structure.simps [simp del]

declare UnmarshalJSON.simps [simp del]

lemma PrintProps_fields:
  "PrintProps tgp props types out = (out', Inr types') \<Longrightarrow>
   \<exists>tys. length tys = length props \<and>
         types' = types @ map (field_of_Property tgp) (zip props tys)"
proof (induction props arbitrary: types out)
  case Nil
  then show ?case by simp
next
  case (Cons p props)
  obtain be name ty opt where p: "p = Property be name ty opt" by (cases p)
  from Cons.prems obtain types1 out1 typeName where
    step: "PrintProps tgp props (types @ [field_line (tgp name) typeName name]) out1 = (out', Inr types')"
    unfolding p
    by (auto simp: Let_def split: option.splits Schema.splits AnyRef.splits prod.splits if_splits)
  from Cons.IH [OF step] obtain tys where
    tys: "length tys = length props"
      "types' = (types @ [field_line (tgp name) typeName name]) @ map (field_of_Property tgp) (zip props tys)"
    by blast
  show ?case
    by (rule exI [of _ "typeName # tys"]) (simp add: tys p field_of_Property_def)
qed

lemma PrintProps_Optional:
  "PrintProps tgp (map (\<lambda>p. set_Property_Optional p (g p)) props) types out
     = PrintProps tgp props types out"
proof (induction props arbitrary: types out)
  case Nil
  show ?case by simp
next
  case (Cons p props)
  obtain be name ty opt where p: "p = Property be name ty opt" by (cases p)
  show ?case
    by (simp add: p Cons.IH Let_def
          split: option.splits Schema.splits AnyRef.splits prod.splits)
qed

text \<open>
  Claim C1 says that a property of a \<open>base\<close> kind other than \<open>string\<close>, or of kind array,
  map, or, and, tuple, literal or stringLiteral, makes the emitter fail with an
  UnsupportedTypeError and produce no output.  The emitter has no such failure: the two
  \<^verbatim>\<open>switch\<close> statements have no \<^verbatim>\<open>default\<close>, \<^verbatim>\<open>typeName\<close> stays empty, and the field is
  written with an empty type.  Here for a \<open>base\<close> \<open>integer\<close> and an array property.
\<close>

theorem unsupported_type_emitted_without_failure:
  "PrintStruct (\<lambda>name. name) Versioned [] =
     (struct_decl ''Versioned''
        [''version  '' @ [CHR 0x60] @ ''json:'' @ [CHR 0x22] @ ''version,omitempty'' @ [CHR 0x22],
         ''tags  '' @ [CHR 0x60] @ ''json:'' @ [CHR 0x22] @ ''tags,omitempty'' @ [CHR 0x22]],
      None)"
  by (simp add: Versioned_def field_line_def)

text \<open>
  Claim C10: every emitted field's serialization tag carries \<open>,omitempty\<close>, whether or
  not the property's optional flag is set, and the flag has no effect on the emitted text:
  setting the flags of the properties to any values \<open>g\<close> gives the same run, and when the
  run finishes, the declaration it ends with has one line per property, each closed by
  the marker.
\<close>

theorem omitempty_on_every_field:
  "PrintStruct tgp (Structure be name (map (\<lambda>p. set_Property_Optional p (g p)) props) doc ext mix) out
     = PrintStruct tgp (Structure be name props doc ext mix) out
   \<and> (PrintStruct tgp (Structure be name props doc ext mix) out = (out', None) \<longrightarrow>
        (\<exists>pre tys. length tys = length props \<and>
           out' = pre @ struct_decl name
             (map (\<lambda>(p, typeName).
                     tgp (Property_Name p) @ '' '' @ typeName @ '' '' @ [CHR 0x60] @ ''json:''
                       @ [CHR 0x22] @ Property_Name p @ '',omitempty'' @ [CHR 0x22])
                  (zip props tys))))"
proof (intro conjI impI)
  show "PrintStruct tgp (Structure be name (map (\<lambda>p. set_Property_Optional p (g p)) props) doc ext mix) out
     = PrintStruct tgp (Structure be name props doc ext mix) out"
    by (simp add: PrintProps_Optional)
next
  assume run: "PrintStruct tgp (Structure be name props doc ext mix) out = (out', None)"
  then obtain pre types where
    pp: "PrintProps tgp props [] out = (pre, Inr types)" and out': "out' = pre @ struct_decl name types"
    by (auto split: prod.splits sum.splits)
  from PrintProps_fields [OF pp] obtain tys where
    tys: "length tys = length props" "types = map (field_of_Property tgp) (zip props tys)"
    by auto
  have "field_of_Property tgp = (\<lambda>(p, typeName).
          tgp (Property_Name p) @ '' '' @ typeName @ '' '' @ [CHR 0x60] @ ''json:''
            @ [CHR 0x22] @ Property_Name p @ '',omitempty'' @ [CHR 0x22])"
    by (simp add: field_of_Property_def field_line_def fun_eq_iff)
  with tys out' show "\<exists>pre tys. length tys = length props \<and>
           out' = pre @ struct_decl name
             (map (\<lambda>(p, typeName).
                     tgp (Property_Name p) @ '' '' @ typeName @ '' '' @ [CHR 0x60] @ ''json:''
                       @ [CHR 0x22] @ Property_Name p @ '',omitempty'' @ [CHR 0x22])
                  (zip props tys))"
    by metis
qed

theorem omitempty_on_every_field_witness:
  "PrintStruct (\<lambda>name. name) (Structure zero_BaseElement ''Position'' Position_props [] [] []) []
     = (Position_out, None)
   \<and> (\<exists>pre tys. length tys = length Position_props \<and>
         Position_out = pre @ struct_decl ''Position''
             (map (\<lambda>(p, typeName).
                     Property_Name p @ '' '' @ typeName @ '' '' @ [CHR 0x60] @ ''json:''
                       @ [CHR 0x22] @ Property_Name p @ '',omitempty'' @ [CHR 0x22])
                  (zip Position_props tys)))"
proof -
  have run: "PrintStruct (\<lambda>name. name)
      (Structure zero_BaseElement ''Position'' Position_props [] [] []) [] = (Position_out, None)"
    by (simp add: Position_props_def Position_out_def field_line_def)
  from omitempty_on_every_field [THEN conjunct2, rule_format, OF run] run
  show ?thesis by blast
qed

lemma erase_Structure_Properties:
  "erase_Structure s = erase_Structure t \<Longrightarrow>
   map erase_Property (Properties s) = map erase_Property (Properties t)"
  by (cases s; cases t) simp

lemma erase_Property_Type:
  "erase_Property p = erase_Property q \<Longrightarrow>
   map_option erase_Schema (Property_Type p) = map_option erase_Schema (Property_Type q)"
  by (cases p; cases q) simp

lemma erase_Model_Structures:
  "erase_Model m' = erase_Model m \<longleftrightarrow>
   m' \<lparr>Structures := []\<rparr> = m \<lparr>Structures := []\<rparr> \<and>
   map erase_Structure (Structures m') = map erase_Structure (Structures m)"
  by (cases m; cases m') (auto simp: erase_Model_def)

lemma erase_Model_Type_at:
  assumes "erase_Model m' = erase_Model m"
    and "i < length (Structures m')" and "j < length (Properties (Structures m' ! i))"
  shows "map_option erase_Schema (Type_at m' i j) = map_option erase_Schema (Type_at m i j)"
proof -
  from assms(1) have eq: "map erase_Structure (Structures m') = map erase_Structure (Structures m)"
    by (simp add: erase_Model_Structures)
  then have len: "length (Structures m') = length (Structures m)"
    by (rule map_eq_imp_length_eq)
  from eq assms(2) len have "erase_Structure (Structures m' ! i) = erase_Structure (Structures m ! i)"
    by (metis nth_map)
  then have peq: "map erase_Property (Properties (Structures m' ! i))
      = map erase_Property (Properties (Structures m ! i))"
    by (rule erase_Structure_Properties)
  then have plen: "length (Properties (Structures m' ! i)) = length (Properties (Structures m ! i))"
    by (rule map_eq_imp_length_eq)
  from peq assms(3) plen
  have "erase_Property (Properties (Structures m' ! i) ! j)
      = erase_Property (Properties (Structures m ! i) ! j)"
    by (metis nth_map)
  then show ?thesis
    unfolding Type_at_def by (rule erase_Property_Type)
qed

lemma erase_store_Type:
  assumes "i < length (Structures m) \<Longrightarrow> j < length (Properties (Structures m ! i)) \<Longrightarrow>
           map_option erase_Schema ty = map_option erase_Schema (Type_at m i j)"
  shows "erase_Model (store_Type m i j ty) = erase_Model m"
proof (cases "i < length (Structures m) \<and> j < length (Properties (Structures m ! i))")
  case False
  then show ?thesis by (auto simp: store_Type_def Let_def)
next
  case True
  obtain be name props doc ext mix where s: "Structures m ! i = Structure be name props doc ext mix"
    by (cases "Structures m ! i")
  obtain pbe pname pty popt where p: "props ! j = Property pbe pname pty popt"
    by (cases "props ! j")
  from True s have j: "j < length props" by simp
  from assms True s p have ty: "map_option erase_Schema ty = map_option erase_Schema pty"
    by (simp add: Type_at_def)
  have "map erase_Property (props[j := Property pbe pname ty popt]) = map erase_Property props"
    using j p ty by (simp add: map_update list_update_same_conv)
  then have "erase_Structure (Structure be name (props[j := Property pbe pname ty popt]) doc ext mix)
      = erase_Structure (Structures m ! i)"
    by (simp add: s)
  then have "map erase_Structure ((Structures m)[i := Structure be name (props[j := Property pbe pname ty popt]) doc ext mix])
      = map erase_Structure (Structures m)"
    using True by (simp add: map_update list_update_same_conv)
  then show ?thesis
    using True s p by (simp add: store_Type_def Let_def erase_Model_def)
qed

lemma ResolveRefs_Reference_Some:
  assumes "ResolveRefs n m (Some (Reference be name fnd)) = Some (m', ty', e)"
  obtains er where "Model_AnyRef n m name = Some (m', Inl er)"
      "ty' = Some (Reference be name fnd)" "e = Some er"
    | found where "Model_AnyRef n m name = Some (m', Inr found)"
      "ty' = Some (Reference be name (Some found))" "e = None"
  using assms by (auto split: option.splits prod.splits sum.splits)

lemma ResolveRefs_Array_Some:
  assumes "ResolveRefs n m (Some (Array be el)) = Some (m', ty', e)"
  obtains el' where "ResolveRefs n m el = Some (m', el', e)" "ty' = Some (Array be el')"
  using assms by (auto split: option.splits prod.splits)

lemma ResolveRefs_Or_Some:
  assumes "ResolveRefs n m (Some (Or be items)) = Some (m', ty', e)"
  obtains items' where "ResolveItems n m items = Some (m', items', e)" "ty' = Some (Or be items')"
  using assms by (auto split: option.splits prod.splits)

lemma ResolveRefs_And_Some:
  assumes "ResolveRefs n m (Some (And be items)) = Some (m', ty', e)"
  obtains items' where "ResolveItems n m items = Some (m', items', e)" "ty' = Some (And be items')"
  using assms by (auto split: option.splits prod.splits)

lemma ResolveRefs_Tuple_Some:
  assumes "ResolveRefs n m (Some (Tuple be items)) = Some (m', ty', e)"
  obtains items' where "ResolveItems n m items = Some (m', items', e)" "ty' = Some (Tuple be items')"
  using assms by (auto split: option.splits prod.splits)

lemma ResolveRefs_Map_Some:
  assumes "ResolveRefs n m (Some (Map be k v)) = Some (m', ty', e)"
  obtains k' er where "ResolveRefs n m k = Some (m', k', Some er)"
      "ty' = Some (Map be k' v)" "e = Some er"
    | m1 k' v' where "ResolveRefs n m k = Some (m1, k', None)"
      "ResolveRefs n m1 v = Some (m', v', e)" "ty' = Some (Map be k' v')"
  using assms by (auto split: option.splits prod.splits)

lemma ResolveItems_Cons_Some:
  assumes "ResolveItems n m (item # items) = Some (m', items', e)"
  obtains item' er where "ResolveRefs n m item = Some (m', item', Some er)"
      "items' = item' # items" "e = Some er"
    | m1 item' rest where "ResolveRefs n m item = Some (m1, item', None)"
      "ResolveItems n m1 items = Some (m', rest, e)" "items' = item' # rest"
  using assms by (auto split: option.splits prod.splits)

lemma Model_AnyRef_Some:
  assumes "Model_AnyRef n m name = Some (m', r)"
  obtains s k er where "find (\<lambda>s. Structure_Name s = name) (Structures m) = Some s"
      "n = Suc k" "Model_Structure k m name = Some (m', Inl er)" "r = Inl er"
    | s k st where "find (\<lambda>s. Structure_Name s = name) (Structures m) = Some s"
      "n = Suc k" "Model_Structure k m name = Some (m', Inr st)"
      "r = Inr (AnyRef name (Some st) None None)"
    | en where "find (\<lambda>s. Structure_Name s = name) (Structures m) = None"
      "find (\<lambda>e. Enumeration_Name e = name) (Enumerations m) = Some en"
      "m' = m" "r = Inr (AnyRef name None (Some en) None)"
    | al where "find (\<lambda>s. Structure_Name s = name) (Structures m) = None"
      "find (\<lambda>e. Enumeration_Name e = name) (Enumerations m) = None"
      "find (\<lambda>a. TypeAlias_Name a = name) (TypeAliases m) = Some al"
      "m' = m" "r = Inr (AnyRef name None None (Some al))"
    | "find (\<lambda>s. Structure_Name s = name) (Structures m) = None"
      "find (\<lambda>e. Enumeration_Name e = name) (Enumerations m) = None"
      "find (\<lambda>a. TypeAlias_Name a = name) (TypeAliases m) = None"
      "m' = m" "r = Inl (RefNotFound name)"
  using assms unfolding Model_AnyRef.simps [of n m name]
  by (auto split: option.splits prod.splits sum.splits nat.splits)

lemma Model_Structure_Some:
  assumes "Model_Structure n m name = Some (m', rs)"
  obtains "first_index (\<lambda>s. Structure_Name s = name) (Structures m) = None"
      "m' = m" "rs = Inl (StructureNotFound name)"
    | i er where "first_index (\<lambda>s. Structure_Name s = name) (Structures m) = Some i"
      "ResolveProps n m i 0 (Properties (Structures m ! i)) = Some (m', Some er)" "rs = Inl er"
    | i where "first_index (\<lambda>s. Structure_Name s = name) (Structures m) = Some i"
      "ResolveProps n m i 0 (Properties (Structures m ! i)) = Some (m', None)"
      "rs = Inr (Structures m' ! i)"
  using assms unfolding Model_Structure.simps [of n m name]
  by (auto split: option.splits prod.splits sum.splits)

lemma ResolveProps_Cons_Some:
  assumes "ResolveProps n m i j (p # props) = Some (m', e)"
  obtains m1 ty1 er where "ResolveRefs n m (Type_at m i j) = Some (m1, ty1, Some er)"
      "m' = store_Type m1 i j ty1" "e = Some er"
    | m1 ty1 where "ResolveRefs n m (Type_at m i j) = Some (m1, ty1, None)"
      "ResolveProps n (store_Type m1 i j ty1) i (Suc j) props = Some (m', e)"
  using assms by (auto simp: Let_def split: option.splits prod.splits)

lemma frame:
  shows "ResolveRefs n m ty = Some (m', ty', e) \<Longrightarrow>
           erase_Model m' = erase_Model m \<and>
           map_option erase_Schema ty' = map_option erase_Schema ty"
    and "ResolveItems n m items = Some (m', items', e) \<Longrightarrow>
           erase_Model m' = erase_Model m \<and>
           map (map_option erase_Schema) items' = map (map_option erase_Schema) items"
    and "Model_AnyRef n m name = Some (m', r) \<Longrightarrow> erase_Model m' = erase_Model m"
    and "Model_Structure n m name = Some (m', rs) \<Longrightarrow> erase_Model m' = erase_Model m"
    and "ResolveProps n m i j props = Some (m', e') \<Longrightarrow> erase_Model m' = erase_Model m"
proof (induct n m ty and n m items and n m name and n m name and n m i j props
    arbitrary: m' ty' e and m' items' e and m' r and m' rs and m' e'
    rule: ResolveRefs_ResolveItems_Model_AnyRef_Model_Structure_ResolveProps.induct)
  case (1 n m)
  then show ?case by simp
next
  case (2 n m be name fnd)
  from "2.prems" show ?case
    by (rule ResolveRefs_Reference_Some) (use "2.hyps" in auto)
next
  case (3 n m be el)
  from "3.prems" show ?case
    by (rule ResolveRefs_Array_Some) (use "3.hyps" in auto)
next
  case (4 n m be items)
  from "4.prems" show ?case
    by (rule ResolveRefs_Or_Some) (use "4.hyps" in auto)
next
  case (5 n m be items)
  from "5.prems" show ?case
    by (rule ResolveRefs_And_Some) (use "5.hyps" in auto)
next
  case (6 n m be k v)
  from "6.prems" show ?case
  proof (rule ResolveRefs_Map_Some)
    fix k' er
    assume "ResolveRefs n m k = Some (m', k', Some er)" "ty' = Some (Map be k' v)"
    then show ?thesis using "6.hyps"(1) by auto
  next
    fix m1 k' v'
    assume k: "ResolveRefs n m k = Some (m1, k', None)"
      and v: "ResolveRefs n m1 v = Some (m', v', e)" and ty': "ty' = Some (Map be k' v')"
    from "6.hyps"(1) [OF k] "6.hyps"(2) [OF k refl refl refl v] ty'
    show ?thesis by auto
  qed
next
  case (7 n m be items)
  from "7.prems" show ?case
    by (rule ResolveRefs_Tuple_Some) (use "7.hyps" in auto)
next
  case (8 n m be name)
  then show ?case by simp
next
  case (9 n m be v)
  then show ?case by simp
next
  case (10 n m be v)
  then show ?case by simp
next
  case (11 n m)
  then show ?case by simp
next
  case (12 n m item items)
  from "12.prems" show ?case
  proof (rule ResolveItems_Cons_Some)
    fix item' er
    assume "ResolveRefs n m item = Some (m', item', Some er)" "items' = item' # items"
    then show ?thesis using "12.hyps"(1) by auto
  next
    fix m1 item' rest
    assume i: "ResolveRefs n m item = Some (m1, item', None)"
      and r: "ResolveItems n m1 items = Some (m', rest, e)" and items': "items' = item' # rest"
    from "12.hyps"(1) [OF i] "12.hyps"(2) [OF i refl refl refl r] items'
    show ?thesis by auto
  qed
next
  case (13 n m name)
  from "13.prems" show ?case
    by (rule Model_AnyRef_Some) (use "13.hyps" in auto)
next
  case (14 n m name)
  from "14.prems" show ?case
    by (rule Model_Structure_Some) (use "14.hyps" in auto)
next
  case (15 n m i j)
  then show ?case by simp
next
  case (16 n m i j p props)
  from "16.prems" show ?case
  proof (rule ResolveProps_Cons_Some)
    fix m1 ty1 er
    assume rr: "ResolveRefs n m (Type_at m i j) = Some (m1, ty1, Some er)"
      and m': "m' = store_Type m1 i j ty1"
    from "16.hyps"(1) [OF rr] have m1: "erase_Model m1 = erase_Model m"
      and ty1: "map_option erase_Schema ty1 = map_option erase_Schema (Type_at m i j)"
      by simp_all
    have "erase_Model (store_Type m1 i j ty1) = erase_Model m1"
      by (rule erase_store_Type) (simp add: ty1 erase_Model_Type_at [OF m1])
    with m1 m' show ?thesis by simp
  next
    fix m1 ty1
    assume rr: "ResolveRefs n m (Type_at m i j) = Some (m1, ty1, None)"
      and rest: "ResolveProps n (store_Type m1 i j ty1) i (Suc j) props = Some (m', e')"
    from "16.hyps"(1) [OF rr] have m1: "erase_Model m1 = erase_Model m"
      and ty1: "map_option erase_Schema ty1 = map_option erase_Schema (Type_at m i j)"
      by simp_all
    have "erase_Model (store_Type m1 i j ty1) = erase_Model m1"
      by (rule erase_store_Type) (simp add: ty1 erase_Model_Type_at [OF m1])
    with "16.hyps"(2) [OF rr refl refl refl refl rest] m1 show ?thesis by simp
  qed
qed

lemma catalog_AB_run:
  "Model_Structure 1 catalog_AB ''A'' = Some (catalog_AB_resolved, Inr resolved_A)"
  by (simp add: Model_Structure.simps Model_AnyRef.simps catalog_AB_def catalog_AB_resolved_def
        resolved_A_def resolved_B_def Type_at_def store_Type_def)

lemma first_index_Some:
  "first_index P xs = Some i \<Longrightarrow> i < length xs \<and> P (xs ! i) \<and> find P xs = Some (xs ! i)"
proof (induction xs arbitrary: i)
  case Nil
  then show ?case by simp
next
  case (Cons x xs)
  then show ?case by (cases "P x") auto
qed

lemma first_index_None: "first_index P xs = None \<longleftrightarrow> find P xs = None"
  by (induction xs) auto

lemma erase_Model_nth:
  assumes "erase_Model m' = erase_Model m" and "i < length (Structures m)"
  shows "erase_Structure (Structures m' ! i) = erase_Structure (Structures m ! i)"
proof -
  from assms(1) have eq: "map erase_Structure (Structures m') = map erase_Structure (Structures m)"
    by (simp add: erase_Model_Structures)
  then have "length (Structures m') = length (Structures m)"
    by (rule map_eq_imp_length_eq)
  with eq assms(2) show ?thesis by (metis nth_map)
qed

text \<open>
  Claim C9: resolution changes nothing in the catalog but the resolution handles of
  reference nodes.  Whatever \<^verbatim>\<open>ResolveRefs\<close> or \<^verbatim>\<open>Structure\<close> returns, an error included,
  the catalog and the node they leave have the erasure they started with.
\<close>

theorem resolution_changes_handles_only:
  "(ResolveRefs n m ty = Some (m', ty', e) \<longrightarrow>
      erase_Model m' = erase_Model m \<and>
      map_option erase_Schema ty' = map_option erase_Schema ty)
   \<and> (Model_Structure n m name = Some (m'', rs) \<longrightarrow> erase_Model m'' = erase_Model m)"
  using frame(1) [of n m ty m' ty' e] frame(4) [of n m name m'' rs] by blast

theorem resolution_changes_handles_only_witness:
  "Model_Structure 1 catalog_AB ''A'' = Some (catalog_AB_resolved, Inr resolved_A)
   \<and> catalog_AB_resolved \<noteq> catalog_AB
   \<and> erase_Model catalog_AB_resolved = erase_Model catalog_AB"
proof -
  have ne: "catalog_AB_resolved \<noteq> catalog_AB"
    by (simp add: catalog_AB_resolved_def catalog_AB_def resolved_A_def)
  from resolution_changes_handles_only [THEN conjunct2, rule_format, OF catalog_AB_run]
    catalog_AB_run ne
  show ?thesis by blast
qed

text \<open>
  Claim C6, as amended.  A reference naming a definition absent from the structures, the
  enumerations and the type aliases fails with the \<^verbatim>\<open>ref not found\<close> error carrying
  exactly that name, and leaves node and catalog as they are.  A reference succeeds when
  no structure bears the name and an enumeration or a type alias does.  When a structure
  bears the name, the reference does what \<^verbatim>\<open>Structure\<close> of that name does: it succeeds
  when that call succeeds, and returns that call's error when it fails.
\<close>

theorem reference_resolution_outcome:
  "(name \<notin> set (map Structure_Name (Structures m)) \<and>
    name \<notin> set (map Enumeration_Name (Enumerations m)) \<and>
    name \<notin> set (map TypeAlias_Name (TypeAliases m)) \<longrightarrow>
      ResolveRefs n m (Some (Reference be name fnd))
        = Some (m, Some (Reference be name fnd), Some (RefNotFound name)))
   \<and> (name \<notin> set (map Structure_Name (Structures m)) \<and>
       (name \<in> set (map Enumeration_Name (Enumerations m)) \<or>
        name \<in> set (map TypeAlias_Name (TypeAliases m))) \<longrightarrow>
      (\<exists>found. ResolveRefs n m (Some (Reference be name fnd))
        = Some (m, Some (Reference be name (Some found)), None)))
   \<and> (name \<in> set (map Structure_Name (Structures m)) \<and>
       Model_Structure k m name = Some (m', Inr st) \<longrightarrow>
      ResolveRefs (Suc k) m (Some (Reference be name fnd))
        = Some (m', Some (Reference be name (Some (AnyRef name (Some st) None None))), None))
   \<and> (name \<in> set (map Structure_Name (Structures m)) \<and>
       Model_Structure k m name = Some (m', Inl er) \<longrightarrow>
      ResolveRefs (Suc k) m (Some (Reference be name fnd))
        = Some (m', Some (Reference be name fnd), Some er))"
proof -
  have S: "find (\<lambda>s. Structure_Name s = name) (Structures m) = None
      \<longleftrightarrow> name \<notin> set (map Structure_Name (Structures m))"
    by (auto simp: find_None_iff)
  have E: "find (\<lambda>e. Enumeration_Name e = name) (Enumerations m) = None
      \<longleftrightarrow> name \<notin> set (map Enumeration_Name (Enumerations m))"
    by (auto simp: find_None_iff)
  have A: "find (\<lambda>a. TypeAlias_Name a = name) (TypeAliases m) = None
      \<longleftrightarrow> name \<notin> set (map TypeAlias_Name (TypeAliases m))"
    by (auto simp: find_None_iff)
  show ?thesis
    using S E A
    by (auto simp: Model_AnyRef.simps [of _ m name] split: option.splits)
qed

theorem reference_resolution_outcome_witness:
  "ResolveRefs 0 catalog_AB (Some (Reference zero_BaseElement ''Z'' None))
     = Some (catalog_AB, Some (Reference zero_BaseElement ''Z'' None), Some (RefNotFound ''Z''))
   \<and> (\<exists>found. ResolveRefs 0 catalog_AB (Some (Reference zero_BaseElement ''E'' None))
         = Some (catalog_AB, Some (Reference zero_BaseElement ''E'' (Some found)), None))
   \<and> ResolveRefs (Suc 0) catalog_AB (Some (Reference zero_BaseElement ''B'' None))
       = Some (catalog_AB,
               Some (Reference zero_BaseElement ''B'' (Some (AnyRef ''B'' (Some resolved_B) None None))),
               None)
   \<and> ResolveRefs (Suc 0) catalog_broken (Some (Reference zero_BaseElement ''A'' None))
       = Some (catalog_broken, Some (Reference zero_BaseElement ''A'' None),
               Some (RefNotFound ''Missing''))"
proof -
  have z: "''Z'' \<notin> set (map Structure_Name (Structures catalog_AB)) \<and>
      ''Z'' \<notin> set (map Enumeration_Name (Enumerations catalog_AB)) \<and>
      ''Z'' \<notin> set (map TypeAlias_Name (TypeAliases catalog_AB))"
    by (simp add: catalog_AB_def)
  have e: "''E'' \<notin> set (map Structure_Name (Structures catalog_AB)) \<and>
      (''E'' \<in> set (map Enumeration_Name (Enumerations catalog_AB)) \<or>
       ''E'' \<in> set (map TypeAlias_Name (TypeAliases catalog_AB)))"
    by (simp add: catalog_AB_def)
  have b: "''B'' \<in> set (map Structure_Name (Structures catalog_AB)) \<and>
      Model_Structure 0 catalog_AB ''B'' = Some (catalog_AB, Inr resolved_B)"
    by (simp add: Model_Structure.simps catalog_AB_def resolved_B_def Type_at_def store_Type_def)
  have a: "''A'' \<in> set (map Structure_Name (Structures catalog_broken)) \<and>
      Model_Structure 0 catalog_broken ''A'' = Some (catalog_broken, Inl (RefNotFound ''Missing''))"
    by (simp add: Model_Structure.simps Model_AnyRef.simps catalog_broken_def Type_at_def
          store_Type_def)
  note t = reference_resolution_outcome
  from t [THEN conjunct1, rule_format, OF z]
    t [THEN conjunct2, THEN conjunct1, rule_format, OF e]
    t [THEN conjunct2, THEN conjunct2, THEN conjunct1, rule_format, OF b]
    t [THEN conjunct2, THEN conjunct2, THEN conjunct2, rule_format, OF a]
  show ?thesis by blast
qed

theorem reference_to_existing_structure_fails:
  "''A'' \<in> set (map Structure_Name (Structures catalog_broken))
   \<and> (\<forall>n. \<not> (\<exists>m' ty'. ResolveRefs n catalog_broken (Some (Reference zero_BaseElement ''A'' None))
                  = Some (m', ty', None)))"
proof (intro conjI allI)
  show "''A'' \<in> set (map Structure_Name (Structures catalog_broken))"
    by (simp add: catalog_broken_def)
next
  fix n
  show "\<not> (\<exists>m' ty'. ResolveRefs n catalog_broken (Some (Reference zero_BaseElement ''A'' None))
                  = Some (m', ty', None))"
  proof (cases n)
    case 0
    then show ?thesis by (simp add: Model_AnyRef.simps catalog_broken_def)
  next
    case (Suc k)
    then show ?thesis
      by (simp add: Model_Structure.simps Model_AnyRef.simps catalog_broken_def Type_at_def
            store_Type_def)
  qed
qed

lemma field_of_None:
  "field_of eqf names k = None \<longleftrightarrow> k \<notin> set names \<and> (\<forall>f \<in> set names. \<not> eqf f k)"
  by (auto simp: field_of_def find_None_iff)

lemma field_of_in: "field_of eqf names k = Some f \<Longrightarrow> f \<in> set names"
  by (auto simp: field_of_def find_Some_iff split: if_splits)

lemma save_simps [simp]: "save (Some y) e = Some y" "save None e = Some e"
  by (simp_all add: save_def)

lemma save_not_None [simp]: "save saved e \<noteq> None"
  by (cases saved) simp_all

lemma store_string_saved [simp]: "snd (store_string fld v cur (Some y)) = Some y"
  by (cases v) (simp_all add: store_string_def)

lemma failing_simps [simp]:
  "failing (Inl e)" "failing (Inr (x, saved)) \<longleftrightarrow> saved \<noteq> None"
  by (simp_all add: failing_def)

lemma strict_failing:
  "failing (members ms) \<Longrightarrow> \<exists>e. strict (JObject ms) zero members = Inl e"
  by (auto simp: strict_def failing_def split: sum.splits prod.splits option.splits)

lemma wrap_Inl: "r = Inl e \<Longrightarrow> wrap kind r mk = Inl (SchemaTypeError kind e)"
  by (simp add: wrap_def)

lemma name_members_saved [simp]:
  "snd (name_members eqf fld ms cur (Some y)) = Some y"
proof (induction ms arbitrary: cur)
  case Nil
  show ?case by simp
next
  case (Cons kv ms)
  obtain k v where kv: "kv = (k, v)" by (cases kv)
  show ?case
    by (simp add: kv Cons.IH case_prod_beta split: option.splits)
qed

lemma literal_members_saved [simp]:
  "snd (literal_members eqf ms cur (Some y)) = Some y"
proof (induction ms arbitrary: cur)
  case Nil
  show ?case by simp
next
  case (Cons kv ms)
  obtain k v where kv: "kv = (k, v)" by (cases kv)
  show ?case
    by (simp add: kv Cons.IH case_prod_beta split: option.splits)
qed

lemma reference_members_saved [simp]:
  "failing (reference_members eqf df ms cur (Some y))"
proof (induction ms arbitrary: cur)
  case Nil
  show ?case by simp
next
  case (Cons kv ms)
  obtain k v where kv: "kv = (k, v)" by (cases kv)
  obtain name fnd where cur: "cur = (name, fnd)" by (cases cur)
  show ?case
    by (simp add: kv cur Cons.IH case_prod_beta split: option.splits sum.splits)
qed

lemma array_members_saved [simp]:
  "failing (array_members eqf dec ms cur (Some y))"
proof (induction ms arbitrary: cur)
  case Nil
  show ?case by simp
next
  case (Cons kv ms)
  obtain k v where kv: "kv = (k, v)" by (cases kv)
  show ?case
    by (simp add: kv Cons.IH case_prod_beta split: option.splits sum.splits)
qed

lemma items_members_saved [simp]:
  "failing (items_members eqf dec ms cur (Some y))"
proof (induction ms arbitrary: cur)
  case Nil
  show ?case by simp
next
  case (Cons kv ms)
  obtain k v where kv: "kv = (k, v)" by (cases kv)
  show ?case
    by (cases v) (simp_all add: kv Cons.IH case_prod_beta split: option.splits sum.splits)
qed

lemma map_members_saved [simp]:
  "failing (map_members eqf dec ms cur (Some y))"
proof (induction ms arbitrary: cur)
  case Nil
  show ?case by simp
next
  case (Cons kv ms)
  obtain k v where kv: "kv = (k, v)" by (cases kv)
  obtain key val where cur: "cur = (key, val)" by (cases cur)
  show ?case
    by (simp add: kv cur Cons.IH case_prod_beta split: option.splits sum.splits)
qed

lemma name_members_unknown:
  "(k, v) \<in> set ms \<Longrightarrow> field_of eqf [''kind'', fld] k = None \<Longrightarrow>
   snd (name_members eqf fld ms cur saved) \<noteq> None"
proof (induction ms arbitrary: cur saved)
  case Nil
  then show ?case by simp
next
  case (Cons kv ms)
  obtain k0 v0 where kv: "kv = (k0, v0)" by (cases kv)
  show ?case
  proof (cases "(k0, v0) = (k, v)")
    case True
    with Cons.prems(2) show ?thesis
      by (cases saved) (simp_all add: kv)
  next
    case False
    with Cons.prems kv have "(k, v) \<in> set ms" by auto
    from Cons.IH [OF this Cons.prems(2)] show ?thesis
      by (simp add: kv case_prod_beta split: option.splits)
  qed
qed

lemma literal_members_unknown:
  "(k, v) \<in> set ms \<Longrightarrow> field_of eqf [''kind'', ''value''] k = None \<Longrightarrow>
   snd (literal_members eqf ms cur saved) \<noteq> None"
proof (induction ms arbitrary: cur saved)
  case Nil
  then show ?case by simp
next
  case (Cons kv ms)
  obtain k0 v0 where kv: "kv = (k0, v0)" by (cases kv)
  show ?case
  proof (cases "(k0, v0) = (k, v)")
    case True
    with Cons.prems(2) show ?thesis
      by (cases saved) (simp_all add: kv)
  next
    case False
    with Cons.prems kv have "(k, v) \<in> set ms" by auto
    from Cons.IH [OF this Cons.prems(2)] show ?thesis
      by (simp add: kv case_prod_beta split: option.splits)
  qed
qed

lemma reference_members_unknown:
  "(k, v) \<in> set ms \<Longrightarrow> field_of eqf [''kind'', ''name'', ''Found''] k = None \<Longrightarrow>
   failing (reference_members eqf df ms cur saved)"
proof (induction ms arbitrary: cur saved)
  case Nil
  then show ?case by simp
next
  case (Cons kv ms)
  obtain k0 v0 where kv: "kv = (k0, v0)" by (cases kv)
  obtain name fnd where cur: "cur = (name, fnd)" by (cases cur)
  show ?case
  proof (cases "(k0, v0) = (k, v)")
    case True
    with Cons.prems(2) show ?thesis
      by (cases saved) (simp_all add: kv cur)
  next
    case False
    with Cons.prems kv have "(k, v) \<in> set ms" by auto
    from Cons.IH [OF this Cons.prems(2)] show ?thesis
      by (simp add: kv cur case_prod_beta split: option.splits sum.splits)
  qed
qed

lemma array_members_unknown:
  "(k, v) \<in> set ms \<Longrightarrow> field_of eqf [''kind'', ''element''] k = None \<Longrightarrow>
   failing (array_members eqf dec ms cur saved)"
proof (induction ms arbitrary: cur saved)
  case Nil
  then show ?case by simp
next
  case (Cons kv ms)
  obtain k0 v0 where kv: "kv = (k0, v0)" by (cases kv)
  show ?case
  proof (cases "(k0, v0) = (k, v)")
    case True
    with Cons.prems(2) show ?thesis
      by (cases saved) (simp_all add: kv)
  next
    case False
    with Cons.prems kv have "(k, v) \<in> set ms" by auto
    from Cons.IH [OF this Cons.prems(2)] show ?thesis
      by (simp add: kv case_prod_beta split: option.splits sum.splits)
  qed
qed

lemma items_members_unknown:
  "(k, v) \<in> set ms \<Longrightarrow> field_of eqf [''kind'', ''items''] k = None \<Longrightarrow>
   failing (items_members eqf dec ms cur saved)"
proof (induction ms arbitrary: cur saved)
  case Nil
  then show ?case by simp
next
  case (Cons kv ms)
  obtain k0 v0 where kv: "kv = (k0, v0)" by (cases kv)
  show ?case
  proof (cases "(k0, v0) = (k, v)")
    case True
    with Cons.prems(2) show ?thesis
      by (cases saved) (simp_all add: kv)
  next
    case False
    with Cons.prems kv have "(k, v) \<in> set ms" by auto
    from Cons.IH [OF this Cons.prems(2)] show ?thesis
      by (cases v0) (simp_all add: kv case_prod_beta split: option.splits sum.splits)
  qed
qed

lemma map_members_unknown:
  "(k, v) \<in> set ms \<Longrightarrow> field_of eqf [''kind'', ''key'', ''value''] k = None \<Longrightarrow>
   failing (map_members eqf dec ms cur saved)"
proof (induction ms arbitrary: cur saved)
  case Nil
  then show ?case by simp
next
  case (Cons kv ms)
  obtain k0 v0 where kv: "kv = (k0, v0)" by (cases kv)
  obtain key val where cur: "cur = (key, val)" by (cases cur)
  show ?case
  proof (cases "(k0, v0) = (k, v)")
    case True
    with Cons.prems(2) show ?thesis
      by (cases saved) (simp_all add: kv cur)
  next
    case False
    with Cons.prems kv have "(k, v) \<in> set ms" by auto
    from Cons.IH [OF this Cons.prems(2)] show ?thesis
      by (simp add: kv cur case_prod_beta split: option.splits sum.splits)
  qed
qed

lemma unmarshal_pointer_Inl:
  "v \<noteq> JNull \<Longrightarrow> dec v = Inl e \<Longrightarrow> unmarshal_pointer dec v = Inl e"
  by (cases v) (simp_all add: unmarshal_pointer_def)

lemma unmarshal_pointers_abort:
  "x \<in> set xs \<Longrightarrow> x \<noteq> JNull \<Longrightarrow> dec x = Inl e \<Longrightarrow> \<exists>e'. unmarshal_pointers dec xs = Inl e'"
proof (induction xs)
  case Nil
  then show ?case by simp
next
  case (Cons y ys)
  show ?case
  proof (cases "y = x")
    case True
    with Cons.prems show ?thesis by (simp add: unmarshal_pointer_Inl)
  next
    case False
    with Cons.prems have "x \<in> set ys" by simp
    from Cons.IH [OF this Cons.prems(2,3)] show ?thesis
      by (auto split: sum.splits)
  qed
qed

lemma array_members_abort:
  "(k, v) \<in> set ms \<Longrightarrow> field_of eqf [''kind'', ''element''] k = Some ''element'' \<Longrightarrow>
   v \<noteq> JNull \<Longrightarrow> dec v = Inl e \<Longrightarrow> \<exists>e'. array_members eqf dec ms cur saved = Inl e'"
proof (induction ms arbitrary: cur saved)
  case Nil
  then show ?case by simp
next
  case (Cons kv ms)
  obtain k0 v0 where kv: "kv = (k0, v0)" by (cases kv)
  show ?case
  proof (cases "(k0, v0) = (k, v)")
    case True
    with Cons.prems show ?thesis
      by (simp add: kv unmarshal_pointer_Inl)
  next
    case False
    with Cons.prems kv have "(k, v) \<in> set ms" by auto
    from Cons.IH [OF this Cons.prems(2,3,4)] show ?thesis
      by (simp add: kv split: option.splits sum.splits)
  qed
qed

lemma items_members_abort:
  "(k, JArray xs) \<in> set ms \<Longrightarrow> field_of eqf [''kind'', ''items''] k = Some ''items'' \<Longrightarrow>
   x \<in> set xs \<Longrightarrow> x \<noteq> JNull \<Longrightarrow> dec x = Inl e \<Longrightarrow>
   \<exists>e'. items_members eqf dec ms cur saved = Inl e'"
proof (induction ms arbitrary: cur saved)
  case Nil
  then show ?case by simp
next
  case (Cons kv ms)
  obtain k0 v0 where kv: "kv = (k0, v0)" by (cases kv)
  show ?case
  proof (cases "(k0, v0) = (k, JArray xs)")
    case True
    with Cons.prems unmarshal_pointers_abort [of x xs dec e] show ?thesis
      by (auto simp: kv)
  next
    case False
    with Cons.prems kv have "(k, JArray xs) \<in> set ms" by auto
    from Cons.IH [OF this Cons.prems(2,3,4,5)] show ?thesis
      by (cases v0) (simp_all add: kv split: option.splits sum.splits)
  qed
qed

lemma map_members_abort:
  "(k, v) \<in> set ms \<Longrightarrow> field_of eqf [''kind'', ''key'', ''value''] k = Some f \<Longrightarrow>
   f \<noteq> ''kind'' \<Longrightarrow> v \<noteq> JNull \<Longrightarrow> dec v = Inl e \<Longrightarrow>
   \<exists>e'. map_members eqf dec ms cur saved = Inl e'"
proof (induction ms arbitrary: cur saved)
  case Nil
  then show ?case by simp
next
  case (Cons kv ms)
  obtain k0 v0 where kv: "kv = (k0, v0)" by (cases kv)
  obtain key val where cur: "cur = (key, val)" by (cases cur)
  show ?case
  proof (cases "(k0, v0) = (k, v)")
    case True
    with Cons.prems show ?thesis
      by (simp add: kv cur unmarshal_pointer_Inl)
  next
    case False
    with Cons.prems kv have "(k, v) \<in> set ms" by auto
    from Cons.IH [OF this Cons.prems(2,3,4,5)] show ?thesis
      by (simp add: kv cur split: option.splits sum.splits)
  qed
qed

lemma strict_abort:
  "members ms = Inl e \<Longrightarrow> strict (JObject ms) zero members = Inl e"
  by (simp add: strict_def)

lemma UnmarshalJSON_unknown_kind:
  "explore eqf b = Inr kind \<Longrightarrow> kind \<notin> set Schema_kinds \<Longrightarrow>
   UnmarshalJSON eqf df b = Inl (UnknownSchemaKind kind)"
  by (simp add: UnmarshalJSON.simps [of eqf df b] Schema_kinds_def)

lemma UnmarshalJSON_explore_error:
  "explore eqf b = Inl e \<Longrightarrow> UnmarshalJSON eqf df b = Inl e"
  by (simp add: UnmarshalJSON.simps [of eqf df b])

lemma position_fails:
  assumes "position eqf b c" and "\<forall>kind \<in> set Schema_kinds. explore eqf c \<noteq> Inr kind"
  shows "\<exists>e. UnmarshalJSON eqf df b = Inl e"
  using assms
proof (induction rule: position.induct)
  case (here b)
  show ?case
  proof (cases "explore eqf b")
    case (Inl e)
    then show ?thesis by (simp add: UnmarshalJSON_explore_error)
  next
    case (Inr kind)
    with here have "kind \<notin> set Schema_kinds" by auto
    with Inr show ?thesis by (simp add: UnmarshalJSON_unknown_kind)
  qed
next
  case (element ms k v c)
  from element.IH [OF element.prems] obtain e where "UnmarshalJSON eqf df v = Inl e" ..
  from array_members_abort [where dec = "UnmarshalJSON eqf df", OF element.hyps(2,3,4) this]
  obtain e' where "array_members eqf (UnmarshalJSON eqf df) ms None None = Inl e'" ..
  then show ?case
    using element.hyps(1)
    by (simp add: UnmarshalJSON.simps [of eqf df "JObject ms"] strict_abort wrap_Inl)
next
  case (item ms kind k xs x c)
  from item.IH [OF item.prems] obtain e where "UnmarshalJSON eqf df x = Inl e" ..
  from items_members_abort [where dec = "UnmarshalJSON eqf df", OF item.hyps(3,4,5,6) this]
  obtain e' where "items_members eqf (UnmarshalJSON eqf df) ms [] None = Inl e'" ..
  then show ?case
    using item.hyps(1,2)
    by (auto simp: UnmarshalJSON.simps [of eqf df "JObject ms"] strict_abort wrap_Inl)
next
  case (key_value ms k v f c)
  from key_value.IH [OF key_value.prems] obtain e where "UnmarshalJSON eqf df v = Inl e" ..
  from map_members_abort [where dec = "UnmarshalJSON eqf df", OF key_value.hyps(2,3,4,5) this]
  obtain e' where "map_members eqf (UnmarshalJSON eqf df) ms (None, None) None = Inl e'" ..
  then show ?case
    using key_value.hyps(1)
    by (simp add: UnmarshalJSON.simps [of eqf df "JObject ms"] strict_abort wrap_Inl)
qed

lemma field_of_None_subset:
  "field_of eqf names k = None \<Longrightarrow> set names' \<subseteq> set names \<Longrightarrow> field_of eqf names' k = None"
  by (auto simp: field_of_None)

lemma wrap_Inl_ex: "\<exists>e. r = Inl e \<Longrightarrow> \<exists>e. wrap kind r mk = Inl e"
  by (auto simp: wrap_def)

lemma UnmarshalJSON_unknown_key:
  assumes "(k, v) \<in> set ms" and "field_of eqf variant_fields k = None"
  shows "\<exists>e. UnmarshalJSON eqf df (JObject ms) = Inl e"
proof (cases "explore eqf (JObject ms)")
  case (Inl e)
  then show ?thesis by (simp add: UnmarshalJSON_explore_error)
next
  case (Inr kind)
  have el: "field_of eqf [''kind'', ''element''] k = None"
    and it: "field_of eqf [''kind'', ''items''] k = None"
    and rf: "field_of eqf [''kind'', ''name'', ''Found''] k = None"
    and nm: "field_of eqf [''kind'', ''name''] k = None"
    and kv: "field_of eqf [''kind'', ''key'', ''value''] k = None"
    and vl: "field_of eqf [''kind'', ''value''] k = None"
    by (rule field_of_None_subset [OF assms(2)], simp add: variant_fields_def)+
  have 1: "\<exists>e. strict (JObject ms) None (\<lambda>ms. array_members eqf (UnmarshalJSON eqf df) ms None None) = Inl e"
    by (rule strict_failing) (rule array_members_unknown [OF assms(1) el])
  have 2: "\<exists>e. strict (JObject ms) [] (\<lambda>ms. items_members eqf (UnmarshalJSON eqf df) ms [] None) = Inl e"
    by (rule strict_failing) (rule items_members_unknown [OF assms(1) it])
  have 3: "\<exists>e. strict (JObject ms) ([], None) (\<lambda>ms. reference_members eqf df ms ([], None) None) = Inl e"
    by (rule strict_failing) (rule reference_members_unknown [OF assms(1) rf])
  have 4: "\<exists>e. strict (JObject ms) [] (\<lambda>ms. Inr (name_members eqf ''name'' ms [] None)) = Inl e"
    by (rule strict_failing) (use name_members_unknown [OF assms(1) nm] in \<open>simp add: failing_def case_prod_beta\<close>)
  have 5: "\<exists>e. strict (JObject ms) (None, None) (\<lambda>ms. map_members eqf (UnmarshalJSON eqf df) ms (None, None) None) = Inl e"
    by (rule strict_failing) (rule map_members_unknown [OF assms(1) kv])
  have 6: "\<exists>e. strict (JObject ms) [] (\<lambda>ms. Inr (name_members eqf ''value'' ms [] None)) = Inl e"
    by (rule strict_failing) (use name_members_unknown [OF assms(1) vl] in \<open>simp add: failing_def case_prod_beta\<close>)
  have 7: "\<exists>e. strict (JObject ms) JNull (\<lambda>ms. Inr (literal_members eqf ms JNull None)) = Inl e"
    by (rule strict_failing) (use literal_members_unknown [OF assms(1) vl] in \<open>simp add: failing_def case_prod_beta\<close>)
  show ?thesis
    unfolding UnmarshalJSON.simps [of eqf df "JObject ms"] Inr
    using wrap_Inl_ex [OF 1] wrap_Inl_ex [OF 2] wrap_Inl_ex [OF 3] wrap_Inl_ex [OF 4]
      wrap_Inl_ex [OF 5] wrap_Inl_ex [OF 6] wrap_Inl_ex [OF 7]
    by simp
qed

lemma wrap_Inr: "wrap kind r mk = Inr s \<Longrightarrow> \<exists>x. r = Inr x \<and> s = mk x"
  by (auto simp: wrap_def split: sum.splits)

lemma strict_Inr:
  "strict b zero members = Inr x \<Longrightarrow>
   (b = JNull \<and> x = zero) \<or> (\<exists>ms. b = JObject ms \<and> members ms = Inr (x, None))"
  by (auto simp: strict_def split: json.splits sum.splits prod.splits option.splits)

lemma unmarshal_pointer_no_metadata:
  "unmarshal_pointer dec v = Inr p \<Longrightarrow> (\<And>s. dec v = Inr s \<Longrightarrow> no_metadata s) \<Longrightarrow>
   opt_no_metadata p"
  by (cases v) (auto simp: unmarshal_pointer_def opt_no_metadata_def split: sum.splits)

lemma unmarshal_pointers_no_metadata:
  "unmarshal_pointers dec xs = Inr ps \<Longrightarrow>
   (\<And>x s. x \<in> set xs \<Longrightarrow> dec x = Inr s \<Longrightarrow> no_metadata s) \<Longrightarrow>
   list_all opt_no_metadata ps"
proof (induction xs arbitrary: ps)
  case Nil
  then show ?case by simp
next
  case (Cons x xs)
  from Cons.prems(1) obtain p ps' where p: "unmarshal_pointer dec x = Inr p"
    and ps': "unmarshal_pointers dec xs = Inr ps'" and ps: "ps = p # ps'"
    by (auto split: sum.splits)
  have "opt_no_metadata p"
    by (rule unmarshal_pointer_no_metadata [OF p]) (rule Cons.prems(2), simp_all)
  moreover have "list_all opt_no_metadata ps'"
    by (rule Cons.IH [OF ps']) (rule Cons.prems(2), simp_all)
  ultimately show ?case by (simp add: ps)
qed

lemma array_members_no_metadata:
  "array_members eqf dec ms cur saved = Inr (el, sv) \<Longrightarrow> opt_no_metadata cur \<Longrightarrow>
   (\<And>k v s. (k, v) \<in> set ms \<Longrightarrow> dec v = Inr s \<Longrightarrow> no_metadata s) \<Longrightarrow>
   opt_no_metadata el"
proof (induction ms arbitrary: cur saved)
  case Nil
  then show ?case by simp
next
  case (Cons kv ms)
  obtain k v where kv: "kv = (k, v)" by (cases kv)
  have rest: "no_metadata s" if "(k', v') \<in> set ms" "dec v' = Inr s" for k' v' s
    using that Cons.prems(3) [of k' v' s] by simp
  have "no_metadata s" if "dec v = Inr s" for s
    using that Cons.prems(3) [of k v s] by (simp add: kv)
  then have here: "\<And>p. unmarshal_pointer dec v = Inr p \<Longrightarrow> opt_no_metadata p"
    by (rule unmarshal_pointer_no_metadata [rotated])
  from Cons.prems(1) show ?case
    by (auto simp: kv split: option.splits sum.splits if_splits
          intro: Cons.IH [OF _ Cons.prems(2) rest] Cons.IH [OF _ here rest])
qed

lemma items_members_no_metadata:
  "items_members eqf dec ms cur saved = Inr (items, sv) \<Longrightarrow> list_all opt_no_metadata cur \<Longrightarrow>
   (\<And>k xs x s. (k, JArray xs) \<in> set ms \<Longrightarrow> x \<in> set xs \<Longrightarrow> dec x = Inr s \<Longrightarrow> no_metadata s) \<Longrightarrow>
   list_all opt_no_metadata items"
proof (induction ms arbitrary: cur saved)
  case Nil
  then show ?case by simp
next
  case (Cons kv ms)
  obtain k v where kv: "kv = (k, v)" by (cases kv)
  have rest: "no_metadata s" if "(k', JArray xs) \<in> set ms" "x \<in> set xs" "dec x = Inr s"
    for k' xs x s
    using that Cons.prems(3) [of k' xs x s] by simp
  have "no_metadata s" if "v = JArray xs" "x \<in> set xs" "dec x = Inr s" for xs x s
    using that Cons.prems(3) [of k xs x s] by (simp add: kv)
  then have here: "\<And>xs ps. v = JArray xs \<Longrightarrow> unmarshal_pointers dec xs = Inr ps
      \<Longrightarrow> list_all opt_no_metadata ps"
    by (blast intro: unmarshal_pointers_no_metadata)
  have nil: "list_all opt_no_metadata []" by simp
  from Cons.prems(1) show ?case
    by (cases v)
      (auto simp: kv split: option.splits sum.splits if_splits
        intro: Cons.IH [OF _ Cons.prems(2) rest] Cons.IH [OF _ here rest] Cons.IH [OF _ nil rest])
qed

lemma map_members_no_metadata:
  "map_members eqf dec ms cur saved = Inr ((key, val), sv) \<Longrightarrow>
   opt_no_metadata (fst cur) \<and> opt_no_metadata (snd cur) \<Longrightarrow>
   (\<And>k v s. (k, v) \<in> set ms \<Longrightarrow> dec v = Inr s \<Longrightarrow> no_metadata s) \<Longrightarrow>
   opt_no_metadata key \<and> opt_no_metadata val"
proof (induction ms arbitrary: cur saved)
  case Nil
  then show ?case by (cases cur) simp
next
  case (Cons kv ms)
  obtain k v where kv: "kv = (k, v)" by (cases kv)
  obtain key0 val0 where cur: "cur = (key0, val0)" by (cases cur)
  have rest: "no_metadata s" if "(k', v') \<in> set ms" "dec v' = Inr s" for k' v' s
    using that Cons.prems(3) [of k' v' s] by simp
  have "no_metadata s" if "dec v = Inr s" for s
    using that Cons.prems(3) [of k v s] by (simp add: kv)
  then have here: "\<And>p. unmarshal_pointer dec v = Inr p \<Longrightarrow> opt_no_metadata p"
    by (rule unmarshal_pointer_no_metadata [rotated])
  from Cons.prems(1,2) show ?case
    by (auto simp: kv cur split: option.splits sum.splits if_splits
          dest!: Cons.IH [OF _ _ rest] here)
qed

lemma UnmarshalJSON_no_metadata:
  "UnmarshalJSON eqf df b = Inr s \<Longrightarrow> no_metadata s"
proof (induction eqf df b arbitrary: s rule: UnmarshalJSON.induct)
  case (1 eqf df b)
  let ?dec = "UnmarshalJSON eqf df"
  from "1.prems" obtain kind where kind: "explore eqf b = Inr kind"
    by (cases "explore eqf b") (simp_all add: UnmarshalJSON.simps [of eqf df b])
  have null: "b \<noteq> JNull" if "kind \<noteq> []"
    using that kind by (auto simp: explore_def)
  note run = "1.prems" [unfolded UnmarshalJSON.simps [of eqf df b] kind, simplified]
  consider (is_array) "kind = ''array''" | (is_or) "kind = ''or''" | (is_and) "kind = ''and''"
    | (is_reference) "kind = ''reference''" | (is_base) "kind = ''base''" | (is_map) "kind = ''map''"
    | (is_stringLiteral) "kind = ''stringLiteral''" | (is_literal) "kind = ''literal''"
    | (is_tuple) "kind = ''tuple''"
    | (is_other) "kind \<notin> set Schema_kinds"
    by (auto simp: Schema_kinds_def)
  then show ?case
  proof cases
    case is_array
    with run obtain el where
      st: "strict b None (\<lambda>ms. array_members eqf ?dec ms None None) = Inr el"
      and s: "s = Array zero_BaseElement el"
      by (auto dest!: wrap_Inr)
    from strict_Inr [OF st] null is_array obtain ms where b: "b = JObject ms"
      and mem: "array_members eqf ?dec ms None None = Inr (el, None)"
      by auto
    have "opt_no_metadata el"
      by (rule array_members_no_metadata [OF mem])
        (auto simp: opt_no_metadata_def intro: "1.IH"(1) [OF kind is_array b])
    then show ?thesis by (simp add: s opt_no_metadata_def)
  next
    case is_or
    with run obtain items where
      st: "strict b [] (\<lambda>ms. items_members eqf ?dec ms [] None) = Inr items"
      and s: "s = Or zero_BaseElement items"
      by (auto dest!: wrap_Inr)
    from strict_Inr [OF st] null is_or obtain ms where b: "b = JObject ms"
      and mem: "items_members eqf ?dec ms [] None = Inr (items, None)"
      by auto
    have "list_all opt_no_metadata items"
      by (rule items_members_no_metadata [OF mem])
        (auto intro: "1.IH"(2) [OF kind _ is_or b] simp: is_or)
    then show ?thesis by (simp add: s opt_no_metadata_def [abs_def])
  next
    case is_and
    with run obtain items where
      st: "strict b [] (\<lambda>ms. items_members eqf ?dec ms [] None) = Inr items"
      and s: "s = And zero_BaseElement items"
      by (auto dest!: wrap_Inr)
    from strict_Inr [OF st] null is_and obtain ms where b: "b = JObject ms"
      and mem: "items_members eqf ?dec ms [] None = Inr (items, None)"
      by auto
    have "list_all opt_no_metadata items"
      by (rule items_members_no_metadata [OF mem])
        (auto intro: "1.IH"(3) [OF kind _ _ is_and b] simp: is_and)
    then show ?thesis by (simp add: s opt_no_metadata_def [abs_def])
  next
    case is_reference
    with run show ?thesis by (auto dest!: wrap_Inr)
  next
    case is_base
    with run show ?thesis by (auto dest!: wrap_Inr)
  next
    case is_map
    with run obtain key val where
      st: "strict b (None, None) (\<lambda>ms. map_members eqf ?dec ms (None, None) None) = Inr (key, val)"
      and s: "s = Map zero_BaseElement key val"
      by (auto dest!: wrap_Inr)
    from strict_Inr [OF st] null is_map obtain ms where b: "b = JObject ms"
      and mem: "map_members eqf ?dec ms (None, None) None = Inr ((key, val), None)"
      by auto
    have "opt_no_metadata key \<and> opt_no_metadata val"
      by (rule map_members_no_metadata [OF mem])
        (auto simp: opt_no_metadata_def is_map intro: "1.IH"(4) [OF kind _ _ _ _ _ is_map b])
    then show ?thesis by (simp add: s opt_no_metadata_def)
  next
    case is_stringLiteral
    with run show ?thesis by (auto dest!: wrap_Inr)
  next
    case is_literal
    with run show ?thesis by (auto dest!: wrap_Inr)
  next
    case is_tuple
    with run obtain items where
      st: "strict b [] (\<lambda>ms. items_members eqf ?dec ms [] None) = Inr items"
      and s: "s = Tuple zero_BaseElement items"
      by (auto dest!: wrap_Inr)
    from strict_Inr [OF st] null is_tuple obtain ms where b: "b = JObject ms"
      and mem: "items_members eqf ?dec ms [] None = Inr (items, None)"
      by auto
    have "list_all opt_no_metadata items"
      by (rule items_members_no_metadata [OF mem])
        (auto intro: "1.IH"(5) [OF kind _ _ _ _ _ _ _ _ is_tuple b] simp: is_tuple)
    then show ?thesis by (simp add: s opt_no_metadata_def [abs_def])
  next
    case is_other
    with run show ?thesis by (auto simp: Schema_kinds_def)
  qed
qed

text \<open>
  Claim C3 says that a fragment of any of the nine kinds that includes one of the metadata
  fields (\<^verbatim>\<open>since\<close>, \<^verbatim>\<open>proposed\<close>, \<^verbatim>\<open>deprecated\<close>, \<^verbatim>\<open>documentation\<close>, \<^verbatim>\<open>sinceTags\<close>) decodes,
  with the metadata kept on the node.  \<^verbatim>\<open>Schema\<close> embeds \<^verbatim>\<open>BaseElement\<close>, but
  \<^verbatim>\<open>UnmarshalJSON\<close> decodes the fragment into the struct of the variant only, with unknown
  fields disallowed, and that struct has no metadata field: a \<open>base\<close> node with a
  \<^verbatim>\<open>documentation\<close> is rejected.
\<close>

theorem documented_node_rejected:
  "UnmarshalJSON equalFold_ascii (\<lambda>v. Inr None) documented_base
     = Inl (SchemaTypeError ''base'' (UnknownField ''documentation''))"
  by code_simp

text \<open>
  Claim C3, as amended: the decoder never fills the metadata of a Schema Node.  Every node
  it returns, and every node below it, has the zero \<^verbatim>\<open>BaseElement\<close>; and a fragment with
  a member whose key is no field of any variant struct (as the five metadata keys are) is
  rejected, whatever its kind.
\<close>

theorem schema_metadata_never_decoded:
  "(UnmarshalJSON eqf df b = Inr s \<longrightarrow> no_metadata s)
   \<and> ((k, v) \<in> set ms \<and> field_of eqf variant_fields k = None \<longrightarrow>
        (\<exists>e. UnmarshalJSON eqf df (JObject ms) = Inl e))"
  using UnmarshalJSON_no_metadata [of eqf df b s] UnmarshalJSON_unknown_key [of k v ms eqf df]
  by blast

theorem schema_metadata_never_decoded_witness:
  "UnmarshalJSON equalFold_ascii (\<lambda>v. Inr None) array_of_strings
     = Inr (Array zero_BaseElement (Some (Base zero_BaseElement ''string'')))
   \<and> no_metadata (Array zero_BaseElement (Some (Base zero_BaseElement ''string'')))
   \<and> list_all (\<lambda>k. field_of equalFold_ascii variant_fields k = None)
        [''since'', ''proposed'', ''deprecated'', ''documentation'', ''sinceTags'']
   \<and> (\<exists>e. UnmarshalJSON equalFold_ascii (\<lambda>v. Inr None)
          (JObject [(''kind'', JString ''base''), (''name'', JString ''string''),
                    (''documentation'', JString ''The text.'')]) = Inl e)"
proof -
  have run: "UnmarshalJSON equalFold_ascii (\<lambda>v. Inr None) array_of_strings
     = Inr (Array zero_BaseElement (Some (Base zero_BaseElement ''string'')))"
    by code_simp
  have keys: "list_all (\<lambda>k. field_of equalFold_ascii variant_fields k = None)
        [''since'', ''proposed'', ''deprecated'', ''documentation'', ''sinceTags'']"
    by code_simp
  then have key: "(''documentation'', JString ''The text.'')
      \<in> set [(''kind'', JString ''base''), (''name'', JString ''string''),
              (''documentation'', JString ''The text.'')]
    \<and> field_of equalFold_ascii variant_fields ''documentation'' = None"
    by simp
  note t = schema_metadata_never_decoded
  from t [THEN conjunct1, rule_format, OF run] t [THEN conjunct2, rule_format, OF key] run keys
  show ?thesis by blast
qed







lemma refs_of_erase [simp]: "refs_of (erase_Schema s) = refs_of s"
  by (induction s rule: refs_of.induct)
     (auto simp: option.map_comp comp_def split: option.splits
           intro!: arg_cong [where f = concat] )

lemma refs_of_opt_erase [simp]: "refs_of_opt (map_option erase_Schema ty) = refs_of_opt ty"
  by (cases ty) (simp_all add: refs_of_opt_def)

lemma refs_of_opt_simps [simp]:
  "refs_of_opt None = []"
  "refs_of_opt (Some (Reference be name fnd)) = [name]"
  "refs_of_opt (Some (Array be el)) = refs_of_opt el"
  "refs_of_opt (Some (Or be items)) = concat (map refs_of_opt items)"
  "refs_of_opt (Some (And be items)) = concat (map refs_of_opt items)"
  "refs_of_opt (Some (Tuple be items)) = concat (map refs_of_opt items)"
  "refs_of_opt (Some (Map be k v)) = refs_of_opt k @ refs_of_opt v"
  "refs_of_opt (Some (Base be name)) = []"
  "refs_of_opt (Some (StringLiteral be sv)) = []"
  "refs_of_opt (Some (Literal be jv)) = []"
  by (simp_all add: refs_of_opt_def [abs_def])

lemma first_index_map:
  "first_index (\<lambda>x. f x = a) xs = first_index (\<lambda>y. y = a) (map f xs)"
  by (induction xs) simp_all

lemma erase_Model_names:
  assumes "erase_Model m = erase_Model m0"
  shows "map Structure_Name (Structures m) = map Structure_Name (Structures m0)"
proof -
  from assms have "map erase_Structure (Structures m) = map erase_Structure (Structures m0)"
    by (simp add: erase_Model_Structures)
  then have "map (Structure_Name \<circ> erase_Structure) (Structures m)
      = map (Structure_Name \<circ> erase_Structure) (Structures m0)"
    by (metis map_map)
  moreover have "Structure_Name \<circ> erase_Structure = Structure_Name"
  proof
    fix s show "(Structure_Name \<circ> erase_Structure) s = Structure_Name s"
      by (cases s) simp
  qed
  ultimately show ?thesis by simp
qed

lemma erase_Model_first_index:
  assumes "erase_Model m = erase_Model m0"
  shows "first_index (\<lambda>s. Structure_Name s = a) (Structures m)
       = first_index (\<lambda>s. Structure_Name s = a) (Structures m0)"
  by (simp add: first_index_map [of Structure_Name] erase_Model_names [OF assms])

lemma erase_Model_length:
  assumes "erase_Model m = erase_Model m0"
  shows "length (Structures m) = length (Structures m0)"
  using erase_Model_names [OF assms] by (metis length_map)

lemma erase_Model_Properties_length:
  assumes "erase_Model m = erase_Model m0" and "i < length (Structures m0)"
  shows "length (Properties (Structures m ! i)) = length (Properties (Structures m0 ! i))"
proof -
  from erase_Model_nth [OF assms] have
    "map erase_Property (Properties (Structures m ! i))
      = map erase_Property (Properties (Structures m0 ! i))"
    by (rule erase_Structure_Properties)
  then show ?thesis by (rule map_eq_imp_length_eq)
qed

lemma erase_Model_refs:
  assumes "erase_Model m = erase_Model m0" and "i < length (Structures m0)"
    and "j < length (Properties (Structures m0 ! i))"
  shows "refs_of_opt (Type_at m i j) = refs_of_opt (Type_at m0 i j)"
proof -
  from erase_Model_Type_at [OF assms(1) [symmetric] assms(2,3)]
  have "refs_of_opt (map_option erase_Schema (Type_at m0 i j))
      = refs_of_opt (map_option erase_Schema (Type_at m i j))"
    by simp
  then show ?thesis by simp
qed

lemma ResolveRefs_store_frame:
  assumes "ResolveRefs n m (Type_at m i j) = Some (m1, ty1, e)"
  shows "erase_Model (store_Type m1 i j ty1) = erase_Model m"
proof -
  from frame(1) [OF assms] have m1: "erase_Model m1 = erase_Model m"
    and ty1: "map_option erase_Schema ty1 = map_option erase_Schema (Type_at m i j)"
    by simp_all
  have "erase_Model (store_Type m1 i j ty1) = erase_Model m1"
    by (rule erase_store_Type) (simp add: ty1 erase_Model_Type_at [OF m1])
  with m1 show ?thesis by simp
qed

lemma acyclic_from_refs:
  assumes "acyclic_from rank names m0"
    and "first_index (\<lambda>s. Structure_Name s = name) (Structures m0) = Some i"
    and "name \<in> set names" and "j < length (Properties (Structures m0 ! i))"
    and "r \<in> set (refs_of_opt (Type_at m0 i j))" and "r \<in> set (structure_names m0)"
  shows "r \<in> set names \<and> rank r < rank name"
proof -
  from first_index_Some [OF assms(2)]
  have f: "find (\<lambda>s. Structure_Name s = name) (Structures m0) = Some (Structures m0 ! i)"
    by simp
  from assms(4) have "Properties (Structures m0 ! i) ! j \<in> set (Properties (Structures m0 ! i))"
    by simp
  with assms(1,3,5,6) f show ?thesis
    unfolding acyclic_from_def Type_at_def by fastforce
qed



lemma present_erase [simp]: "present (erase_Schema s) = present s"
  by (induction s rule: present.induct)
     (auto simp: list_all_iff split: option.splits)

lemma present_opt_erase [simp]: "present_opt (map_option erase_Schema ty) = present_opt ty"
  by (cases ty) (simp_all add: present_opt_def)

lemma present_opt_simps [simp]:
  "present_opt None = False"
  "present_opt (Some (Reference be name fnd)) = True"
  "present_opt (Some (Array be el)) = present_opt el"
  "present_opt (Some (Or be items)) = list_all present_opt items"
  "present_opt (Some (And be items)) = list_all present_opt items"
  "present_opt (Some (Tuple be items)) = list_all present_opt items"
  "present_opt (Some (Map be k v)) = (present_opt k \<and> present_opt v)"
  "present_opt (Some (Base be name)) = True"
  "present_opt (Some (StringLiteral be sv)) = True"
  "present_opt (Some (Literal be jv)) = True"
  by (simp_all add: present_opt_def [abs_def])

lemma erase_Model_present:
  assumes "erase_Model m = erase_Model m0" and "i < length (Structures m0)"
    and "j < length (Properties (Structures m0 ! i))"
  shows "present_opt (Type_at m i j) = present_opt (Type_at m0 i j)"
proof -
  from erase_Model_Type_at [OF assms(1) [symmetric] assms(2,3)]
  have "present_opt (map_option erase_Schema (Type_at m0 i j))
      = present_opt (map_option erase_Schema (Type_at m i j))"
    by simp
  then show ?thesis by simp
qed

lemma erase_Model_others:
  assumes "erase_Model m = erase_Model m0"
  shows "Enumerations m = Enumerations m0" and "TypeAliases m = TypeAliases m0"
proof -
  from assms have eq: "m\<lparr>Structures := []\<rparr> = m0\<lparr>Structures := []\<rparr>"
    by (simp add: erase_Model_Structures)
  from arg_cong [OF eq, of Enumerations] show "Enumerations m = Enumerations m0" by simp
  from arg_cong [OF eq, of TypeAliases] show "TypeAliases m = TypeAliases m0" by simp
qed

lemma resolvable_from_props:
  assumes "resolvable_from names m0"
    and "first_index (\<lambda>s. Structure_Name s = name) (Structures m0) = Some i"
    and "name \<in> set names" and "j < length (Properties (Structures m0 ! i))"
  shows "present_opt (Type_at m0 i j)"
    and "r \<in> set (refs_of_opt (Type_at m0 i j)) \<Longrightarrow> r \<in> set (defined_names m0)"
proof -
  from first_index_Some [OF assms(2)]
  have f: "find (\<lambda>s. Structure_Name s = name) (Structures m0) = Some (Structures m0 ! i)"
    by simp
  from assms(4) have mem: "Properties (Structures m0 ! i) ! j \<in> set (Properties (Structures m0 ! i))"
    by simp
  from assms(1,3) f mem show "present_opt (Type_at m0 i j)"
    unfolding resolvable_from_def Type_at_def by fastforce
  assume "r \<in> set (refs_of_opt (Type_at m0 i j))"
  with assms(1,3) f mem show "r \<in> set (defined_names m0)"
    unfolding resolvable_from_def Type_at_def by fastforce
qed

lemma resolution_succeeds:
  assumes ac: "acyclic_from rank names m0" and rs: "resolvable_from names m0"
  shows "erase_Model m = erase_Model m0 \<Longrightarrow> present_opt ty \<Longrightarrow>
         (\<And>r. r \<in> set (refs_of_opt ty) \<Longrightarrow> r \<in> set (defined_names m0) \<and>
               (r \<in> set (structure_names m0) \<longrightarrow> r \<in> set names \<and> rank r < n)) \<Longrightarrow>
         \<exists>m' ty'. ResolveRefs n m ty = Some (m', ty', None)"
    and "erase_Model m = erase_Model m0 \<Longrightarrow> list_all present_opt items \<Longrightarrow>
         (\<And>r. r \<in> set (concat (map refs_of_opt items)) \<Longrightarrow> r \<in> set (defined_names m0) \<and>
               (r \<in> set (structure_names m0) \<longrightarrow> r \<in> set names \<and> rank r < n)) \<Longrightarrow>
         \<exists>m' items'. ResolveItems n m items = Some (m', items', None)"
    and "erase_Model m = erase_Model m0 \<Longrightarrow> name \<in> set (defined_names m0) \<Longrightarrow>
         (name \<in> set (structure_names m0) \<longrightarrow> name \<in> set names \<and> rank name < n) \<Longrightarrow>
         \<exists>m' a. Model_AnyRef n m name = Some (m', Inr a)"
    and "erase_Model m = erase_Model m0 \<Longrightarrow> name \<in> set (structure_names m0) \<Longrightarrow>
         name \<in> set names \<Longrightarrow> rank name \<le> n \<Longrightarrow>
         \<exists>m' s. Model_Structure n m name = Some (m', Inr s)"
    and "erase_Model m = erase_Model m0 \<Longrightarrow>
         first_index (\<lambda>s. Structure_Name s = owner) (Structures m0) = Some i \<Longrightarrow>
         owner \<in> set names \<Longrightarrow> rank owner \<le> n \<Longrightarrow>
         j + length props \<le> length (Properties (Structures m0 ! i)) \<Longrightarrow>
         \<exists>m'. ResolveProps n m i j props = Some (m', None)"
proof (induct n m ty and n m items and n m name and n m name and n m i j props
    arbitrary: and and and and owner
    rule: ResolveRefs_ResolveItems_Model_AnyRef_Model_Structure_ResolveProps.induct)
  case (1 n m)
  then show ?case by simp
next
  case (2 n m be name fnd)
  have "\<exists>m' a. Model_AnyRef n m name = Some (m', Inr a)"
    by (rule "2.hyps" [OF "2.prems"(1)]) (use "2.prems"(3) [of name] in simp_all)
  then show ?case by auto
next
  case (3 n m be el)
  have "\<exists>m' ty'. ResolveRefs n m el = Some (m', ty', None)"
    by (rule "3.hyps" [OF "3.prems"(1)]) (use "3.prems"(2,3) in simp_all)
  then show ?case by auto
next
  case (4 n m be items)
  have "\<exists>m' items'. ResolveItems n m items = Some (m', items', None)"
    by (rule "4.hyps" [OF "4.prems"(1)]) (use "4.prems"(2,3) in simp_all)
  then show ?case by auto
next
  case (5 n m be items)
  have "\<exists>m' items'. ResolveItems n m items = Some (m', items', None)"
    by (rule "5.hyps" [OF "5.prems"(1)]) (use "5.prems"(2,3) in simp_all)
  then show ?case by auto
next
  case (6 n m be k v)
  have "\<exists>m' ty'. ResolveRefs n m k = Some (m', ty', None)"
    by (rule "6.hyps"(1) [OF "6.prems"(1)]) (use "6.prems"(2,3) in simp_all)
  then obtain m1 k' where k: "ResolveRefs n m k = Some (m1, k', None)" by auto
  from frame(1) [OF k] "6.prems"(1) have m1: "erase_Model m1 = erase_Model m0" by simp
  have "\<exists>m' ty'. ResolveRefs n m1 v = Some (m', ty', None)"
    by (rule "6.hyps"(2) [OF k refl refl refl m1]) (use "6.prems"(2,3) in simp_all)
  with k show ?case by auto
next
  case (7 n m be items)
  have "\<exists>m' items'. ResolveItems n m items = Some (m', items', None)"
    by (rule "7.hyps" [OF "7.prems"(1)]) (use "7.prems"(2,3) in simp_all)
  then show ?case by auto
next
  case (8 n m be name)
  show ?case by simp
next
  case (9 n m be v)
  show ?case by simp
next
  case (10 n m be v)
  show ?case by simp
next
  case (11 n m)
  show ?case by simp
next
  case (12 n m item items)
  have "\<exists>m' ty'. ResolveRefs n m item = Some (m', ty', None)"
    by (rule "12.hyps"(1) [OF "12.prems"(1)]) (use "12.prems"(2,3) in simp_all)
  then obtain m1 item' where i: "ResolveRefs n m item = Some (m1, item', None)" by auto
  from frame(1) [OF i] "12.prems"(1) have m1: "erase_Model m1 = erase_Model m0" by simp
  have "\<exists>m' items'. ResolveItems n m1 items = Some (m', items', None)"
    by (rule "12.hyps"(2) [OF i refl refl refl m1]) (use "12.prems"(2,3) in simp_all)
  with i show ?case by auto
next
  case (13 n m name)
  note names = erase_Model_names [OF "13.prems"(1)]
  note others = erase_Model_others [OF "13.prems"(1)]
  show ?case
  proof (cases "find (\<lambda>s. Structure_Name s = name) (Structures m)")
    case (Some s)
    then have "name \<in> set (structure_names m0)"
      by (auto simp: structure_names_def names [symmetric] find_Some_iff)
    with "13.prems"(3) have st: "name \<in> set (structure_names m0)"
      and nm: "name \<in> set names" and lt: "rank name < n"
      by simp_all
    from lt obtain k where n: "n = Suc k" by (cases n) simp_all
    have "\<exists>m' s. Model_Structure k m name = Some (m', Inr s)"
      by (rule "13.hyps" [OF Some n "13.prems"(1) st nm]) (use lt n in simp)
    with Some n show ?thesis
      by (auto simp: Model_AnyRef.simps [of _ m name])
  next
    case None
    then have "name \<notin> set (map Structure_Name (Structures m0))"
      by (auto simp: find_None_iff names [symmetric])
    with "13.prems"(2) have "name \<in> set (map Enumeration_Name (Enumerations m))
        \<or> name \<in> set (map TypeAlias_Name (TypeAliases m))"
      by (auto simp: defined_names_def others)
    then have "find (\<lambda>e. Enumeration_Name e = name) (Enumerations m) \<noteq> None
        \<or> find (\<lambda>a. TypeAlias_Name a = name) (TypeAliases m) \<noteq> None"
      by (auto simp: find_None_iff)
    with None show ?thesis
      by (auto simp: Model_AnyRef.simps [of n m name] split: option.splits)
  qed
next
  case (14 n m name)
  from "14.prems"(2) obtain i where
    i0: "first_index (\<lambda>s. Structure_Name s = name) (Structures m0) = Some i"
    by (cases "first_index (\<lambda>s. Structure_Name s = name) (Structures m0)")
       (auto simp: first_index_None find_None_iff structure_names_def)
  then have i: "first_index (\<lambda>s. Structure_Name s = name) (Structures m) = Some i"
    by (simp add: erase_Model_first_index [OF "14.prems"(1)])
  from first_index_Some [OF i0] have il: "i < length (Structures m0)" by simp
  have "\<exists>m'. ResolveProps n m i 0 (Properties (Structures m ! i)) = Some (m', None)"
    by (rule "14.hyps" [OF i "14.prems"(1) i0 "14.prems"(3,4)])
      (simp add: erase_Model_Properties_length [OF "14.prems"(1) il])
  with i show ?case
    by (auto simp: Model_Structure.simps [of n m name])
next
  case (15 n m i j)
  show ?case by simp
next
  case (16 n m i j p props)
  from "16.prems"(5) have jl: "j < length (Properties (Structures m0 ! i))" by simp
  from first_index_Some [OF "16.prems"(2)] have il: "i < length (Structures m0)" by simp
  have "\<exists>m' ty'. ResolveRefs n m (Type_at m i j) = Some (m', ty', None)"
  proof (rule "16.hyps"(1) [OF "16.prems"(1)])
    show "present_opt (Type_at m i j)"
      using resolvable_from_props(1) [OF rs "16.prems"(2,3) jl]
      by (simp add: erase_Model_present [OF "16.prems"(1) il jl])
  next
    fix r
    assume "r \<in> set (refs_of_opt (Type_at m i j))"
    then have r: "r \<in> set (refs_of_opt (Type_at m0 i j))"
      by (simp add: erase_Model_refs [OF "16.prems"(1) il jl])
    from resolvable_from_props(2) [OF rs "16.prems"(2,3) jl r]
      acyclic_from_refs [OF ac "16.prems"(2,3) jl r] "16.prems"(4)
    show "r \<in> set (defined_names m0) \<and>
        (r \<in> set (structure_names m0) \<longrightarrow> r \<in> set names \<and> rank r < n)"
      by auto
  qed
  then obtain m1 ty1 where rr: "ResolveRefs n m (Type_at m i j) = Some (m1, ty1, None)"
    by auto
  from ResolveRefs_store_frame [OF rr] "16.prems"(1)
  have m2: "erase_Model (store_Type m1 i j ty1) = erase_Model m0" by simp
  have "\<exists>m'. ResolveProps n (store_Type m1 i j ty1) i (Suc j) props = Some (m', None)"
    by (rule "16.hyps"(2) [OF rr refl refl refl refl m2 "16.prems"(2,3,4)])
      (use "16.prems"(5) in simp)
  with rr show ?case by (simp add: Let_def)
qed

lemma keeps_emitting_refl [simp]: "keeps_emitting tgp m m"
  by (simp add: keeps_emitting_def)

lemma keeps_emitting_trans:
  "keeps_emitting tgp m m1 \<Longrightarrow> keeps_emitting tgp m1 m2 \<Longrightarrow> keeps_emitting tgp m m2"
  by (simp add: keeps_emitting_def)

lemma emits_simps [simp]:
  "emits tgp None = False"
  "emits tgp (Some (Reference be name None)) = False"
  "emits tgp (Some (Reference be name (Some (AnyRef an (Some s) en al))))
     = (\<forall>out. snd (PrintStruct tgp s out) = None)"
  "emits tgp (Some (Reference be name (Some (AnyRef an None (Some e) al)))) = True"
  "emits tgp (Some (Reference be name (Some (AnyRef an None None (Some a))))) = True"
  "emits tgp (Some (Reference be name (Some (AnyRef an None None None)))) = False"
  "emits tgp (Some (Base be name)) = True"
  "emits tgp (Some (Array be el)) = True"
  "emits tgp (Some (Or be items)) = True"
  "emits tgp (Some (And be items)) = True"
  "emits tgp (Some (Map be k v)) = True"
  "emits tgp (Some (StringLiteral be sv)) = True"
  "emits tgp (Some (Literal be jv)) = True"
  "emits tgp (Some (Tuple be items)) = True"
  by (simp_all add: emits_def)

lemma PrintProps_emits:
  "\<forall>p \<in> set props. emits tgp (Property_Type p) \<Longrightarrow>
   \<exists>out' types'. PrintProps tgp props types out = (out', Inr types')"
proof (induction props arbitrary: types out)
  case Nil
  show ?case by simp
next
  case (Cons p props)
  obtain be name ty opt where p: "p = Property be name ty opt" by (cases p)
  from Cons.prems p have e: "emits tgp ty" by simp
  from Cons.prems have rest: "\<forall>p \<in> set props. emits tgp (Property_Type p)" by simp
  note IH = Cons.IH [OF rest]
  from e obtain sch where ty: "ty = Some sch" by (cases ty) simp_all
  show ?case
  proof (cases sch)
    case (Reference rbe rname fnd)
    with e ty obtain a where fnd: "fnd = Some a" by (cases fnd) simp_all
    obtain an st en al where a: "a = AnyRef an st en al" by (cases a)
    show ?thesis
    proof (cases st)
      case (Some s)
      with e ty Reference fnd a have "snd (PrintStruct tgp s out) = None" by simp
      then obtain o1 where "PrintStruct tgp s out = (o1, None)"
        by (cases "PrintStruct tgp s out") simp
      with IH [of "types @ [field_line (tgp name) (''*'' @ Structure_Name s) name]" o1]
      show ?thesis by (simp add: p ty Reference fnd a Some)
    next
      case None
      note st = this
      show ?thesis
      proof (cases en)
        case (Some x)
        with IH [of "types @ [field_line (tgp name) (Enumeration_Name x) name]" out]
        show ?thesis by (simp add: p ty Reference fnd a st)
      next
        case None
        with e ty Reference fnd a st obtain y where al: "al = Some y" by (cases al) simp_all
        with IH [of "types @ [field_line (tgp name) (TypeAlias_Name y) name]" out] None
        show ?thesis by (simp add: p ty Reference fnd a st)
      qed
    qed
  next
    case (Base bbe bname)
    with IH [of "types @ [field_line (tgp name) (if bname = ''string'' then ''string'' else []) name]" out]
    show ?thesis by (simp add: p ty)
  qed (use IH [of "types @ [field_line (tgp name) [] name]" out] in \<open>simp_all add: p ty\<close>)
qed

lemma PrintStruct_emits:
  assumes "\<forall>p \<in> set (Properties s). emits tgp (Property_Type p)"
  shows "snd (PrintStruct tgp s out) = None"
proof -
  obtain be name props doc ext mix where s: "s = Structure be name props doc ext mix"
    by (cases s)
  from PrintProps_emits [of props tgp "[]" out] assms obtain out' types' where
    "PrintProps tgp props [] out = (out', Inr types')"
    by (auto simp: s)
  then show ?thesis by (simp add: s)
qed

lemma Properties_set_Properties [simp]: "Properties (set_Properties s props) = props"
  by (cases s) simp

lemma Property_Type_set_Property_Type [simp]: "Property_Type (set_Property_Type p ty) = ty"
  by (cases p) simp

lemma Type_at_store_Type:
  "Type_at (store_Type m i j ty) i' j' =
     (if i' = i \<and> j' = j \<and> i < length (Structures m) \<and> j < length (Properties (Structures m ! i))
      then ty else Type_at m i' j')"
  by (auto simp: Type_at_def store_Type_def Let_def nth_list_update)

lemma keeps_emitting_store:
  assumes "emits tgp (Type_at m i j) \<longrightarrow> emits tgp ty"
  shows "keeps_emitting tgp m (store_Type m i j ty)"
  using assms by (auto simp: keeps_emitting_def Type_at_store_Type)

lemma resolution_keeps_emitting:
  shows "ResolveRefs n m ty = Some (m', ty', e) \<Longrightarrow>
           keeps_emitting tgp m m' \<and> (emits tgp ty \<longrightarrow> emits tgp ty')
             \<and> (e = None \<longrightarrow> emits tgp ty')"
    and "ResolveItems n m items = Some (m', items', e) \<Longrightarrow> keeps_emitting tgp m m'"
    and "Model_AnyRef n m name = Some (m', r) \<Longrightarrow>
           keeps_emitting tgp m m'
             \<and> (\<forall>a be. r = Inr a \<longrightarrow> emits tgp (Some (Reference be name (Some a))))"
    and "Model_Structure n m name = Some (m', rs) \<Longrightarrow>
           keeps_emitting tgp m m'
             \<and> (\<forall>s out. rs = Inr s \<longrightarrow> snd (PrintStruct tgp s out) = None)"
    and "ResolveProps n m i j props = Some (m', e') \<Longrightarrow> i < length (Structures m) \<Longrightarrow>
           j + length props \<le> length (Properties (Structures m ! i)) \<Longrightarrow>
           keeps_emitting tgp m m'
             \<and> (e' = None \<longrightarrow>
                  (\<forall>j'. j \<le> j' \<and> j' < j + length props \<longrightarrow> emits tgp (Type_at m' i j')))"
proof (induct n m ty and n m items and n m name and n m name and n m i j props
    arbitrary: m' ty' e and m' items' e and m' r and m' rs and m' e'
    rule: ResolveRefs_ResolveItems_Model_AnyRef_Model_Structure_ResolveProps.induct)
  case (1 n m)
  then show ?case by auto
next
  case (2 n m be name fnd)
  from "2.prems" show ?case
  proof (rule ResolveRefs_Reference_Some)
    fix er
    assume "Model_AnyRef n m name = Some (m', Inl er)" and "ty' = Some (Reference be name fnd)"
      and "e = Some er"
    with "2.hyps" show ?thesis by auto
  next
    fix found
    assume "Model_AnyRef n m name = Some (m', Inr found)"
      and "ty' = Some (Reference be name (Some found))" and "e = None"
    with "2.hyps" show ?thesis by auto
  qed
next
  case (3 n m be el)
  from "3.prems" show ?case
    by (rule ResolveRefs_Array_Some) (use "3.hyps" in auto)
next
  case (4 n m be items)
  from "4.prems" show ?case
    by (rule ResolveRefs_Or_Some) (use "4.hyps" in auto)
next
  case (5 n m be items)
  from "5.prems" show ?case
    by (rule ResolveRefs_And_Some) (use "5.hyps" in auto)
next
  case (6 n m be k v)
  from "6.prems" show ?case
  proof (rule ResolveRefs_Map_Some)
    fix k' er
    assume "ResolveRefs n m k = Some (m', k', Some er)" and "ty' = Some (Map be k' v)"
    with "6.hyps"(1) show ?thesis by auto
  next
    fix m1 k' v'
    assume k: "ResolveRefs n m k = Some (m1, k', None)"
      and v: "ResolveRefs n m1 v = Some (m', v', e)" and ty': "ty' = Some (Map be k' v')"
    from "6.hyps"(1) [OF k] have "keeps_emitting tgp m m1" by simp
    moreover from "6.hyps"(2) [OF k refl refl refl v] have "keeps_emitting tgp m1 m'" by simp
    ultimately have "keeps_emitting tgp m m'" by (rule keeps_emitting_trans)
    with ty' show ?thesis by simp
  qed
next
  case (7 n m be items)
  from "7.prems" show ?case
    by (rule ResolveRefs_Tuple_Some) (use "7.hyps" in auto)
next
  case (8 n m be name)
  then show ?case by auto
next
  case (9 n m be v)
  then show ?case by auto
next
  case (10 n m be v)
  then show ?case by auto
next
  case (11 n m)
  then show ?case by simp
next
  case (12 n m item items)
  from "12.prems" show ?case
  proof (rule ResolveItems_Cons_Some)
    fix item' er
    assume "ResolveRefs n m item = Some (m', item', Some er)"
    with "12.hyps"(1) show ?thesis by auto
  next
    fix m1 item' rest
    assume i: "ResolveRefs n m item = Some (m1, item', None)"
      and r: "ResolveItems n m1 items = Some (m', rest, e)"
    from "12.hyps"(1) [OF i] have "keeps_emitting tgp m m1" by simp
    moreover from "12.hyps"(2) [OF i refl refl refl r] have "keeps_emitting tgp m1 m'" .
    ultimately show ?thesis by (rule keeps_emitting_trans)
  qed
next
  case (13 n m name)
  from "13.prems" show ?case
    by (rule Model_AnyRef_Some) (use "13.hyps" in auto)
next
  case (14 n m name)
  from "14.prems" show ?case
  proof (rule Model_Structure_Some)
    assume "m' = m" and "rs = Inl (StructureNotFound name)"
    then show ?thesis by simp
  next
    fix i er
    assume i: "first_index (\<lambda>s. Structure_Name s = name) (Structures m) = Some i"
      and rp: "ResolveProps n m i 0 (Properties (Structures m ! i)) = Some (m', Some er)"
      and rs: "rs = Inl er"
    from first_index_Some [OF i] have il: "i < length (Structures m)" by simp
    from "14.hyps" [OF i rp il] rs show ?thesis by simp
  next
    fix i
    assume i: "first_index (\<lambda>s. Structure_Name s = name) (Structures m) = Some i"
      and rp: "ResolveProps n m i 0 (Properties (Structures m ! i)) = Some (m', None)"
      and rs: "rs = Inr (Structures m' ! i)"
    from first_index_Some [OF i] have il: "i < length (Structures m)" by simp
    from "14.hyps" [OF i rp il] have keep: "keeps_emitting tgp m m'"
      and all: "\<forall>j'. j' < length (Properties (Structures m ! i)) \<longrightarrow> emits tgp (Type_at m' i j')"
      by simp_all
    from frame(5) [OF rp] have fr: "erase_Model m' = erase_Model m" .
    from erase_Model_Properties_length [OF fr il]
    have len: "length (Properties (Structures m' ! i)) = length (Properties (Structures m ! i))" .
    have "\<forall>p \<in> set (Properties (Structures m' ! i)). emits tgp (Property_Type p)"
    proof
      fix p assume "p \<in> set (Properties (Structures m' ! i))"
      then obtain j' where "j' < length (Properties (Structures m' ! i))"
        and "p = Properties (Structures m' ! i) ! j'"
        by (auto simp: in_set_conv_nth)
      with all len show "emits tgp (Property_Type p)"
        by (simp add: Type_at_def)
    qed
    then have "\<And>out. snd (PrintStruct tgp (Structures m' ! i) out) = None"
      by (rule PrintStruct_emits)
    with keep rs show ?thesis by simp
  qed
next
  case (15 n m i j)
  then show ?case by auto
next
  case (16 n m i j p props)
  from "16.prems"(3) have jl: "j < length (Properties (Structures m ! i))" by simp
  from "16.prems"(1) show ?case
  proof (rule ResolveProps_Cons_Some)
    fix m1 ty1 er
    assume rr: "ResolveRefs n m (Type_at m i j) = Some (m1, ty1, Some er)"
      and m': "m' = store_Type m1 i j ty1" and e': "e' = Some er"
    from "16.hyps"(1) [OF rr] have k1: "keeps_emitting tgp m m1"
      and t1: "emits tgp (Type_at m i j) \<longrightarrow> emits tgp ty1"
      by simp_all
    have "keeps_emitting tgp m (store_Type m1 i j ty1)"
      using k1 t1 by (auto simp: keeps_emitting_def Type_at_store_Type)
    with m' e' show ?thesis by simp
  next
    fix m1 ty1
    assume rr: "ResolveRefs n m (Type_at m i j) = Some (m1, ty1, None)"
      and rest: "ResolveProps n (store_Type m1 i j ty1) i (Suc j) props = Some (m', e')"
    let ?m2 = "store_Type m1 i j ty1"
    from "16.hyps"(1) [OF rr] have k1: "keeps_emitting tgp m m1"
      and t1: "emits tgp (Type_at m i j) \<longrightarrow> emits tgp ty1" and t2: "emits tgp ty1"
      by simp_all
    have k2: "keeps_emitting tgp m ?m2"
      using k1 t1 by (auto simp: keeps_emitting_def Type_at_store_Type)
    from frame(1) [OF rr] have f1: "erase_Model m1 = erase_Model m" by simp
    from ResolveRefs_store_frame [OF rr] have f2: "erase_Model ?m2 = erase_Model m" .
    from erase_Model_length [OF f2] "16.prems"(2) have il2: "i < length (Structures ?m2)"
      by simp
    from erase_Model_Properties_length [OF f2 "16.prems"(2)]
    have len2: "length (Properties (Structures ?m2 ! i)) = length (Properties (Structures m ! i))" .
    from erase_Model_length [OF f1] "16.prems"(2) have il1: "i < length (Structures m1)"
      by simp
    from erase_Model_Properties_length [OF f1 "16.prems"(2)] jl
    have jl1: "j < length (Properties (Structures m1 ! i))" by simp
    have here: "emits tgp (Type_at ?m2 i j)"
      using t2 il1 jl1 by (simp add: Type_at_store_Type)
    from "16.prems"(3) len2 have bound: "Suc j + length props \<le> length (Properties (Structures ?m2 ! i))"
      by simp
    from "16.hyps"(2) [OF rr refl refl refl refl rest il2 bound]
    have k3: "keeps_emitting tgp ?m2 m'"
      and later: "e' = None \<longrightarrow>
        (\<forall>j'. Suc j \<le> j' \<and> j' < Suc j + length props \<longrightarrow> emits tgp (Type_at m' i j'))"
      by simp_all
    from k3 here have now: "emits tgp (Type_at m' i j)"
      by (simp add: keeps_emitting_def)
    have "e' = None \<longrightarrow>
        (\<forall>j'. j \<le> j' \<and> j' < j + length (p # props) \<longrightarrow> emits tgp (Type_at m' i j'))"
    proof (intro impI allI)
      fix j' assume "e' = None" and "j \<le> j' \<and> j' < j + length (p # props)"
      with later now show "emits tgp (Type_at m' i j')"
        by (cases "j' = j") auto
    qed
    with keeps_emitting_trans [OF k2 k3] show ?thesis by simp
  qed
qed

lemma erase_Property_Name:
  "erase_Property p = erase_Property q \<Longrightarrow> Property_Name p = Property_Name q"
  by (cases p; cases q) simp

lemma erase_Structure_Name:
  "erase_Structure s = erase_Structure t \<Longrightarrow> Structure_Name s = Structure_Name t"
  by (cases s; cases t) simp

lemma erase_Properties_names:
  assumes "map erase_Property ps = map erase_Property qs"
  shows "map Property_Name ps = map Property_Name qs"
proof -
  from assms have "map (Property_Name \<circ> erase_Property) ps = map (Property_Name \<circ> erase_Property) qs"
    by (metis map_map)
  moreover have "Property_Name \<circ> erase_Property = Property_Name"
  proof
    fix p show "(Property_Name \<circ> erase_Property) p = Property_Name p"
      by (cases p) simp
  qed
  ultimately show ?thesis by simp
qed

lemma fields_by_name:
  "map Property_Name ps = map Property_Name qs \<Longrightarrow>
   map (field_of_Property tgp) (zip ps tys) = map (field_of_Property tgp) (zip qs tys)"
proof (induction ps arbitrary: qs tys)
  case Nil
  then show ?case by simp
next
  case (Cons p ps)
  then obtain q qs' where qs: "qs = q # qs'" by (cases qs) auto
  show ?case
  proof (cases tys)
    case Nil
    then show ?thesis by simp
  next
    case (Cons t ts)
    with Cons.prems Cons.IH [of qs' ts] qs show ?thesis
      by (simp add: field_of_Property_def)
  qed
qed

text \<open>
  Claim C4 says that resolution followed by emission succeeds for every structure whose
  transitively referenced names all resolve in the catalog.  In \<open>catalog_tree\<close> the only
  name referenced is that of the structure itself, so every referenced name resolves, and
  \<^verbatim>\<open>Structure("DocumentSymbol")\<close> does not return, at any depth of calls.
\<close>

theorem resolvable_structure_never_resolved:
  "resolvable_from [''DocumentSymbol''] catalog_tree
   \<and> (\<forall>n. Model_Structure n catalog_tree ''DocumentSymbol'' = None)"
proof
  show "resolvable_from [''DocumentSymbol''] catalog_tree"
    by (simp add: resolvable_from_def catalog_tree_def defined_names_def)
next
  show "\<forall>n. Model_Structure n catalog_tree ''DocumentSymbol'' = None"
  proof
    fix n
    show "Model_Structure n catalog_tree ''DocumentSymbol'' = None"
    proof (induction n)
      case 0
      show ?case
        by (simp add: Model_Structure.simps Model_AnyRef.simps catalog_tree_def Type_at_def
              store_Type_def)
    next
      case (Suc n)
      have "Model_AnyRef (Suc n) catalog_tree ''DocumentSymbol'' = None"
        using Suc.IH
        by (simp add: Model_AnyRef.simps [of "Suc n"] catalog_tree_def)
      then show ?case
        by (simp add: Model_Structure.simps [of "Suc n"] catalog_tree_def Type_at_def
              store_Type_def)
    qed
  qed
qed

text \<open>
  Claim C4, as amended.  Let \<open>names\<close> hold the requested name and be closed under
  reference between structures, with these references acyclic (\<open>rank\<close> decreases along
  them), and let every property of the structures so named have a type without nil node
  whose references all name a structure, an enumeration or a type alias of the catalog.
  Then \<^verbatim>\<open>Structure\<close> returns the structure, \<^verbatim>\<open>PrintStruct\<close> on it finishes without panic,
  and the output ends with the declaration of the structure: one line per property, in
  the order of the properties in the catalog, each with the wire name of its property as
  the name in the \<^verbatim>\<open>json\<close> tag.
\<close>

theorem resolved_structure_is_emitted:
  assumes "acyclic_from rank names m" and "resolvable_from names m"
    and "name \<in> set names"
    and "first_index (\<lambda>s. Structure_Name s = name) (Structures m) = Some i"
  shows "\<exists>m' s out' pre tys.
           Model_Structure (rank name) m name = Some (m', Inr s)
           \<and> PrintStruct tgp s out = (out', None)
           \<and> length tys = length (Properties (Structures m ! i))
           \<and> out' = pre @ struct_decl name
               (map (\<lambda>(p, typeName).
                       tgp (Property_Name p) @ '' '' @ typeName @ '' '' @ [CHR 0x60] @ ''json:''
                         @ [CHR 0x22] @ Property_Name p @ '',omitempty'' @ [CHR 0x22])
                    (zip (Properties (Structures m ! i)) tys))"
proof -
  let ?props = "Properties (Structures m ! i)"
  from first_index_Some [OF assms(4)] have il: "i < length (Structures m)"
    and nm: "Structure_Name (Structures m ! i) = name"
    by simp_all
  then have "name \<in> set (structure_names m)"
    by (auto simp: structure_names_def)
  from resolution_succeeds(4) [OF assms(1,2) refl this assms(3) order_refl]
  obtain m' s where run: "Model_Structure (rank name) m name = Some (m', Inr s)"
    by blast
  from run have s: "s = Structures m' ! i"
    by (rule Model_Structure_Some) (use assms(4) in simp_all)
  from erase_Model_nth [OF frame(4) [OF run] il] s
  have er: "erase_Structure s = erase_Structure (Structures m ! i)" by simp
  obtain be name' props' doc ext mix where s': "s = Structure be name' props' doc ext mix"
    by (cases s)
  from erase_Structure_Name [OF er] nm s' have name': "name' = name" by simp
  from erase_Properties_names [OF erase_Structure_Properties [OF er]] s'
  have names: "map Property_Name props' = map Property_Name ?props" by simp
  then have len: "length props' = length ?props"
    by (rule map_eq_imp_length_eq)
  from resolution_keeps_emitting(4) [OF run, of tgp] have "snd (PrintStruct tgp s out) = None"
    by simp
  then obtain out' where ps: "PrintStruct tgp s out = (out', None)"
    by (cases "PrintStruct tgp s out") simp
  then obtain pre types where
    pp: "PrintProps tgp props' [] out = (pre, Inr types)"
    and out': "out' = pre @ struct_decl name' types"
    by (auto simp: s' split: prod.splits sum.splits)
  from PrintProps_fields [OF pp] obtain tys where
    tys: "length tys = length props'" "types = map (field_of_Property tgp) (zip props' tys)"
    by auto
  have fl: "field_of_Property tgp = (\<lambda>(p, typeName).
          tgp (Property_Name p) @ '' '' @ typeName @ '' '' @ [CHR 0x60] @ ''json:''
            @ [CHR 0x22] @ Property_Name p @ '',omitempty'' @ [CHR 0x22])"
    by (simp add: field_of_Property_def field_line_def fun_eq_iff)
  from tys fields_by_name [OF names, of tgp tys]
  have "types = map (field_of_Property tgp) (zip ?props tys)" by simp
  with run ps out' name' tys(1) len
  have "Model_Structure (rank name) m name = Some (m', Inr s)
      \<and> PrintStruct tgp s out = (out', None)
      \<and> length tys = length ?props
      \<and> out' = pre @ struct_decl name (map (field_of_Property tgp) (zip ?props tys))"
    by simp
  then show ?thesis
    unfolding fl by blast
qed

theorem resolved_structure_is_emitted_witness:
  "acyclic_from rank_AB [''A'', ''B''] catalog_AB
   \<and> resolvable_from [''A'', ''B''] catalog_AB
   \<and> ''A'' \<in> set [''A'', ''B'']
   \<and> first_index (\<lambda>s. Structure_Name s = ''A'') (Structures catalog_AB) = Some 0
   \<and> (\<exists>m' s out' pre tys.
         Model_Structure (rank_AB ''A'') catalog_AB ''A'' = Some (m', Inr s)
         \<and> PrintStruct (\<lambda>name. name) s [] = (out', None)
         \<and> length tys = length (Properties (Structures catalog_AB ! 0))
         \<and> out' = pre @ struct_decl ''A''
             (map (\<lambda>(p, typeName).
                     Property_Name p @ '' '' @ typeName @ '' '' @ [CHR 0x60] @ ''json:''
                       @ [CHR 0x22] @ Property_Name p @ '',omitempty'' @ [CHR 0x22])
                  (zip (Properties (Structures catalog_AB ! 0)) tys)))"
proof -
  have ac: "acyclic_from rank_AB [''A'', ''B''] catalog_AB"
    by (simp add: acyclic_from_def catalog_AB_def rank_AB_def structure_names_def)
  have rs: "resolvable_from [''A'', ''B''] catalog_AB"
    by (simp add: resolvable_from_def catalog_AB_def defined_names_def)
  have nm: "''A'' \<in> set [''A'', ''B'']"
    by simp
  have fi: "first_index (\<lambda>s. Structure_Name s = ''A'') (Structures catalog_AB) = Some 0"
    by (simp add: catalog_AB_def)
  from resolved_structure_is_emitted [OF ac rs nm fi, of "\<lambda>name. name" "[]"] ac rs nm fi
  show ?thesis by simp
qed

lemma object_members_abort:
  assumes "(k, v) \<in> set ms" and "\<And>cur saved. \<exists>e. member k v cur saved = Inl e"
  shows "\<exists>e. object_members member ms cur saved = Inl e"
  using assms(1)
proof (induction ms arbitrary: cur saved)
  case Nil
  then show ?case by simp
next
  case (Cons a ms)
  obtain k' v' where a: "a = (k', v')" by (cases a)
  show ?case
  proof (cases "member k' v' cur saved")
    case (Inl e)
    then show ?thesis by (simp add: a)
  next
    case (Inr r)
    obtain cur' saved' where r: "r = (cur', saved')" by (cases r)
    from Inr assms(2) [of cur saved] have "(k', v') \<noteq> (k, v)" by auto
    with Cons.prems a have "(k, v) \<in> set ms" by auto
    from Cons.IH [OF this, of cur' saved'] Inr r show ?thesis by (simp add: a)
  qed
qed

lemma struct_value_abort:
  assumes "(k, v) \<in> set ms" and "\<And>cur saved. \<exists>e. member k v cur saved = Inl e"
  shows "\<exists>e. struct_value member field (JObject ms) cur saved = Inl e"
  using object_members_abort [where member = member and k = k and v = v, OF assms, of cur saved]
  by (simp add: struct_value_def)

lemma struct_elements_abort:
  assumes "x \<in> set xs" and "\<And>saved. \<exists>e. struct_value member field x zero saved = Inl e"
  shows "\<exists>e. struct_elements member field zero xs saved = Inl e"
  using assms(1)
proof (induction xs arbitrary: saved)
  case Nil
  then show ?case by simp
next
  case (Cons y ys)
  show ?case
  proof (cases "struct_value member field y zero saved")
    case (Inl e)
    then show ?thesis by simp
  next
    case (Inr r)
    obtain a saved' where r: "r = (a, saved')" by (cases r)
    from Inr assms(2) [of saved] have "y \<noteq> x" by auto
    with Cons.prems have "x \<in> set ys" by auto
    from Cons.IH [OF this, of saved'] obtain e
      where "struct_elements member field zero ys saved' = Inl e" by blast
    with Inr r show ?thesis by simp
  qed
qed

lemma struct_slice_abort:
  assumes "x \<in> set xs" and "\<And>saved. \<exists>e. struct_value member field x zero saved = Inl e"
  shows "\<exists>e. struct_slice member field zero (JArray xs) cur saved = Inl e"
  using struct_elements_abort [where member = member and x = x, OF assms, of saved]
  by (simp add: struct_slice_def)

lemma store_pointers_abort:
  assumes "x \<in> set xs" and "x \<noteq> JNull" and "dec x = Inl e"
  shows "\<exists>e'. store_pointers dec field (JArray xs) cur saved = Inl e'"
  using unmarshal_pointers_abort [where dec = dec and x = x, OF assms]
  by (auto simp: store_pointers_def)

lemma Property_position_fails:
  assumes "Property_position eqf p c"
    and bad: "\<forall>kind \<in> set Schema_kinds. explore eqf c \<noteq> Inr kind"
  shows "\<exists>e. struct_value (Property_member eqf df) field p cur saved = Inl e"
  using assms(1)
proof cases
  case (property_type k v ms)
  note p = \<open>p = JObject ms\<close> and mem = \<open>(k, v) \<in> set ms\<close>
    and fld = \<open>field_of eqf Property_fields k = Some ''type''\<close>
    and nn = \<open>v \<noteq> JNull\<close> and pos = \<open>position eqf v c\<close>
  from position_fails [OF pos bad, of df] obtain e
    where "UnmarshalJSON eqf df v = Inl e" by blast
  from unmarshal_pointer_Inl [where dec = "UnmarshalJSON eqf df", OF nn this]
  have "\<exists>e. Property_member eqf df k v cur' saved' = Inl e" for cur' saved'
    using fld by (cases cur') simp
  from struct_value_abort [where member = "Property_member eqf df", OF mem this]
  show ?thesis by (simp add: p)
qed

lemma Enumeration_position_fails:
  assumes "Enumeration_position eqf p c"
    and bad: "\<forall>kind \<in> set Schema_kinds. explore eqf c \<noteq> Inr kind"
  shows "\<exists>e. struct_value (Enumeration_member eqf df) field p cur saved = Inl e"
  using assms(1)
proof cases
  case (enumeration_type k v ms)
  note p = \<open>p = JObject ms\<close> and mem = \<open>(k, v) \<in> set ms\<close>
    and fld = \<open>field_of eqf Enumeration_fields k = Some ''type''\<close>
    and nn = \<open>v \<noteq> JNull\<close> and pos = \<open>position eqf v c\<close>
  from position_fails [OF pos bad, of df] obtain e
    where "UnmarshalJSON eqf df v = Inl e" by blast
  from unmarshal_pointer_Inl [where dec = "UnmarshalJSON eqf df", OF nn this]
  have "\<exists>e. Enumeration_member eqf df k v cur' saved' = Inl e" for cur' saved'
    using fld by (cases cur') simp
  from struct_value_abort [where member = "Enumeration_member eqf df", OF mem this]
  show ?thesis by (simp add: p)
qed

lemma TypeAlias_position_fails:
  assumes "TypeAlias_position eqf p c"
    and bad: "\<forall>kind \<in> set Schema_kinds. explore eqf c \<noteq> Inr kind"
  shows "\<exists>e. struct_value (TypeAlias_member eqf df) field p cur saved = Inl e"
  using assms(1)
proof cases
  case (alias_type k v ms)
  note p = \<open>p = JObject ms\<close> and mem = \<open>(k, v) \<in> set ms\<close>
    and fld = \<open>field_of eqf TypeAlias_fields k = Some ''type''\<close>
    and nn = \<open>v \<noteq> JNull\<close> and pos = \<open>position eqf v c\<close>
  from position_fails [OF pos bad, of df] obtain e
    where "UnmarshalJSON eqf df v = Inl e" by blast
  from unmarshal_pointer_Inl [where dec = "UnmarshalJSON eqf df", OF nn this]
  have "\<exists>e. TypeAlias_member eqf df k v cur' saved' = Inl e" for cur' saved'
    using fld by (cases cur') simp
  from struct_value_abort [where member = "TypeAlias_member eqf df", OF mem this]
  show ?thesis by (simp add: p)
qed

lemma Request_position_fails:
  assumes "Request_position eqf p c"
    and bad: "\<forall>kind \<in> set Schema_kinds. explore eqf c \<noteq> Inr kind"
  shows "\<exists>e. struct_value (Request_member eqf df) field p cur saved = Inl e"
  using assms(1)
proof cases
  case (request_schema k v ms f)
  note p = \<open>p = JObject ms\<close> and mem = \<open>(k, v) \<in> set ms\<close>
    and fld = \<open>field_of eqf Request_fields k = Some f\<close>
    and f = \<open>f \<in> {''result'', ''params'', ''partialResult'', ''registrationOptions'', ''errorData''}\<close>
    and nn = \<open>v \<noteq> JNull\<close> and pos = \<open>position eqf v c\<close>
  from position_fails [OF pos bad, of df] obtain e
    where "UnmarshalJSON eqf df v = Inl e" by blast
  from unmarshal_pointer_Inl [where dec = "UnmarshalJSON eqf df", OF nn this]
  have "\<exists>e. Request_member eqf df k v cur' saved' = Inl e" for cur' saved'
    using fld f by (auto simp: Request_member_def)
  from struct_value_abort [where member = "Request_member eqf df", OF mem this]
  show ?thesis by (simp add: p)
qed

lemma Structure_position_fails:
  assumes "Structure_position eqf p c"
    and bad: "\<forall>kind \<in> set Schema_kinds. explore eqf c \<noteq> Inr kind"
  shows "\<exists>e. struct_value (Structure_member eqf df) field p cur saved = Inl e"
  using assms(1)
proof cases
  case (properties k ps ms q)
  note p = \<open>p = JObject ms\<close> and mem = \<open>(k, JArray ps) \<in> set ms\<close>
    and fld = \<open>field_of eqf Structure_fields k = Some ''properties''\<close>
    and q = \<open>q \<in> set ps\<close> and pos = \<open>Property_position eqf q c\<close>
  have sl: "\<exists>e. struct_slice (Property_member eqf df) ''properties'' zero_Property (JArray ps)
      props saved' = Inl e" for props saved'
    by (rule struct_slice_abort [where x = q, OF q]) (rule Property_position_fails [OF pos bad])
  have "\<exists>e. Structure_member eqf df k (JArray ps) cur' saved' = Inl e" for cur' saved'
  proof (cases cur')
    case (Structure be name props doc ext mix)
    from sl [of props saved'] obtain e
      where "struct_slice (Property_member eqf df) ''properties'' zero_Property (JArray ps)
        props saved' = Inl e" by blast
    then show ?thesis using fld by (simp add: Structure)
  qed
  from struct_value_abort [where member = "Structure_member eqf df", OF mem this]
  show ?thesis by (simp add: p)
next
  case (extends k xs ms x)
  note p = \<open>p = JObject ms\<close> and mem = \<open>(k, JArray xs) \<in> set ms\<close>
    and fld = \<open>field_of eqf Structure_fields k = Some ''extends''\<close>
    and x = \<open>x \<in> set xs\<close> and nn = \<open>x \<noteq> JNull\<close> and pos = \<open>position eqf x c\<close>
  from position_fails [OF pos bad, of df] obtain e
    where e: "UnmarshalJSON eqf df x = Inl e" by blast
  have "\<exists>e. Structure_member eqf df k (JArray xs) cur' saved' = Inl e" for cur' saved'
  proof (cases cur')
    case (Structure be name props doc ext mix)
    from store_pointers_abort [where dec = "UnmarshalJSON eqf df", OF x nn e,
        of "''extends''" ext saved']
    obtain e' where "store_pointers (UnmarshalJSON eqf df) ''extends'' (JArray xs) ext saved'
      = Inl e'" by blast
    then show ?thesis using fld by (simp add: Structure)
  qed
  from struct_value_abort [where member = "Structure_member eqf df", OF mem this]
  show ?thesis by (simp add: p)
next
  case (mixins k xs ms x)
  note p = \<open>p = JObject ms\<close> and mem = \<open>(k, JArray xs) \<in> set ms\<close>
    and fld = \<open>field_of eqf Structure_fields k = Some ''mixins''\<close>
    and x = \<open>x \<in> set xs\<close> and nn = \<open>x \<noteq> JNull\<close> and pos = \<open>position eqf x c\<close>
  from position_fails [OF pos bad, of df] obtain e
    where e: "UnmarshalJSON eqf df x = Inl e" by blast
  have "\<exists>e. Structure_member eqf df k (JArray xs) cur' saved' = Inl e" for cur' saved'
  proof (cases cur')
    case (Structure be name props doc ext mix)
    from store_pointers_abort [where dec = "UnmarshalJSON eqf df", OF x nn e,
        of "''mixins''" mix saved']
    obtain e' where "store_pointers (UnmarshalJSON eqf df) ''mixins'' (JArray xs) mix saved'
      = Inl e'" by blast
    then show ?thesis using fld by (simp add: Structure)
  qed
  from struct_value_abort [where member = "Structure_member eqf df", OF mem this]
  show ?thesis by (simp add: p)
qed

lemma unmarshalStrict_abort:
  assumes "(k, v) \<in> set ms" and "\<And>cur saved. \<exists>e. Model_member eqf df k v cur saved = Inl e"
  shows "\<exists>e. unmarshalStrict eqf df (JObject ms) = Inl e"
  using object_members_abort [where member = "Model_member eqf df" and k = k and v = v,
      OF assms, of zero_Model None]
  by (auto simp: unmarshalStrict_def)

lemma Schema_position_fails:
  assumes "Schema_position eqf doc c"
    and bad: "\<forall>kind \<in> set Schema_kinds. explore eqf c \<noteq> Inr kind"
  shows "\<exists>e. unmarshalStrict eqf df doc = Inl e"
  using assms(1)
proof cases
  case (in_request k xs ms f x)
  note p = \<open>doc = JObject ms\<close> and mem = \<open>(k, JArray xs) \<in> set ms\<close>
    and fld = \<open>field_of eqf Model_fields k = Some f\<close>
    and f = \<open>f \<in> {''requests'', ''notifications''}\<close>
    and x = \<open>x \<in> set xs\<close> and pos = \<open>Request_position eqf x c\<close>
  have sl: "\<exists>e. struct_slice (Request_member eqf df) f zero_Request (JArray xs) rs saved' = Inl e"
    for rs saved'
    by (rule struct_slice_abort [where x = x, OF x]) (rule Request_position_fails [OF pos bad])
  have "\<exists>e. Model_member eqf df k (JArray xs) cur' saved' = Inl e" for cur' saved'
  proof (cases "f = ''requests''")
    case True
    from sl [of "Requests cur'" saved'] obtain e
      where "struct_slice (Request_member eqf df) f zero_Request (JArray xs) (Requests cur') saved'
        = Inl e" by blast
    then show ?thesis using fld True by (simp add: Model_member_def)
  next
    case False
    with f have n: "f = ''notifications''" by simp
    from sl [of "Notifications cur'" saved'] obtain e
      where "struct_slice (Request_member eqf df) f zero_Request (JArray xs) (Notifications cur')
        saved' = Inl e" by blast
    then show ?thesis using fld n by (simp add: Model_member_def)
  qed
  from unmarshalStrict_abort [OF mem this] show ?thesis by (simp add: p)
next
  case (in_structure k xs ms x)
  note p = \<open>doc = JObject ms\<close> and mem = \<open>(k, JArray xs) \<in> set ms\<close>
    and fld = \<open>field_of eqf Model_fields k = Some ''structures''\<close>
    and x = \<open>x \<in> set xs\<close> and pos = \<open>Structure_position eqf x c\<close>
  have sl: "\<exists>e. struct_slice (Structure_member eqf df) ''structures'' zero_Structure (JArray xs)
      rs saved' = Inl e" for rs saved'
    by (rule struct_slice_abort [where x = x, OF x]) (rule Structure_position_fails [OF pos bad])
  have "\<exists>e. Model_member eqf df k (JArray xs) cur' saved' = Inl e" for cur' saved'
  proof -
    from sl [of "Structures cur'" saved'] obtain e
      where "struct_slice (Structure_member eqf df) ''structures'' zero_Structure (JArray xs)
        (Structures cur') saved' = Inl e" by blast
    then show ?thesis using fld by (simp add: Model_member_def)
  qed
  from unmarshalStrict_abort [OF mem this] show ?thesis by (simp add: p)
next
  case (in_enumeration k xs ms x)
  note p = \<open>doc = JObject ms\<close> and mem = \<open>(k, JArray xs) \<in> set ms\<close>
    and fld = \<open>field_of eqf Model_fields k = Some ''enumerations''\<close>
    and x = \<open>x \<in> set xs\<close> and pos = \<open>Enumeration_position eqf x c\<close>
  have sl: "\<exists>e. struct_slice (Enumeration_member eqf df) ''enumerations'' zero_Enumeration
      (JArray xs) rs saved' = Inl e" for rs saved'
    by (rule struct_slice_abort [where x = x, OF x]) (rule Enumeration_position_fails [OF pos bad])
  have "\<exists>e. Model_member eqf df k (JArray xs) cur' saved' = Inl e" for cur' saved'
  proof -
    from sl [of "Enumerations cur'" saved'] obtain e
      where "struct_slice (Enumeration_member eqf df) ''enumerations'' zero_Enumeration (JArray xs)
        (Enumerations cur') saved' = Inl e" by blast
    then show ?thesis using fld by (simp add: Model_member_def)
  qed
  from unmarshalStrict_abort [OF mem this] show ?thesis by (simp add: p)
next
  case (in_type_alias k xs ms x)
  note p = \<open>doc = JObject ms\<close> and mem = \<open>(k, JArray xs) \<in> set ms\<close>
    and fld = \<open>field_of eqf Model_fields k = Some ''typeAliases''\<close>
    and x = \<open>x \<in> set xs\<close> and pos = \<open>TypeAlias_position eqf x c\<close>
  have sl: "\<exists>e. struct_slice (TypeAlias_member eqf df) ''typeAliases'' zero_TypeAlias
      (JArray xs) rs saved' = Inl e" for rs saved'
    by (rule struct_slice_abort [where x = x, OF x]) (rule TypeAlias_position_fails [OF pos bad])
  have "\<exists>e. Model_member eqf df k (JArray xs) cur' saved' = Inl e" for cur' saved'
  proof -
    from sl [of "TypeAliases cur'" saved'] obtain e
      where "struct_slice (TypeAlias_member eqf df) ''typeAliases'' zero_TypeAlias (JArray xs)
        (TypeAliases cur') saved' = Inl e" by blast
    then show ?thesis using fld by (simp add: Model_member_def)
  qed
  from unmarshalStrict_abort [OF mem this] show ?thesis by (simp add: p)
qed

text \<open>
  The decoder accepts a document whose Schema Node positions all hold recognized kinds:
  the document with the \<^verbatim>\<open>string\<close> property decodes, and the run writes the declaration.
\<close>

lemma document_string_kind_runs:
  "run (Inr document_string_kind) (unmarshalStrict equalFold_ascii (\<lambda>v. Inr None)) (\<lambda>name. name) 0
     = Some (struct_decl ''Diagnostic'' [field_line ''code'' ''string'' ''code''], Inr None)"
  by code_simp

text \<open>
  Claim C7: a fragment whose \<^verbatim>\<open>kind\<close> is none of the nine recognized values fails to
  decode, with the error \<^verbatim>\<open>unknown schema kind\<close>; when such a fragment stands at a Schema
  Node position of a larger fragment, the larger fragment fails to decode too; and when
  it stands at a Schema Node position of the document, \<^verbatim>\<open>unmarshalStrict\<close> of the document
  fails, \<^verbatim>\<open>fetchMetaModel\<close> returns that error as the decode error, and \<^verbatim>\<open>run\<close> returns it,
  having written nothing, whatever the depth allowed to \<^verbatim>\<open>Structure\<close>: resolution is not
  attempted.  \<open>explore\<close> is the first, lenient pass that reads the \<^verbatim>\<open>kind\<close>; a fragment for
  which it fails has no usable \<^verbatim>\<open>kind\<close> and is rejected as well.
\<close>

theorem unknown_kind_is_decode_error:
  "(explore eqf b = Inr kind \<and> kind \<notin> set Schema_kinds \<longrightarrow>
      UnmarshalJSON eqf df b = Inl (UnknownSchemaKind kind))
   \<and> (position eqf b c \<and> (\<forall>kind \<in> set Schema_kinds. explore eqf c \<noteq> Inr kind) \<longrightarrow>
        (\<exists>e. UnmarshalJSON eqf df b = Inl e))
   \<and> (Schema_position eqf doc c \<and> (\<forall>kind \<in> set Schema_kinds. explore eqf c \<noteq> Inr kind) \<longrightarrow>
        (\<exists>e. unmarshalStrict eqf df doc = Inl e
           \<and> fetchMetaModel (Inr doc) (unmarshalStrict eqf df) = Inl (DecodeError e)
           \<and> (\<forall>n. run (Inr doc) (unmarshalStrict eqf df) toGoPascal n
                  = Some ([], Inl (DecodeError e)))))"
proof (intro conjI impI)
  assume "explore eqf b = Inr kind \<and> kind \<notin> set Schema_kinds"
  then show "UnmarshalJSON eqf df b = Inl (UnknownSchemaKind kind)"
    using UnmarshalJSON_unknown_kind [of eqf b kind df] by simp
next
  assume "position eqf b c \<and> (\<forall>kind \<in> set Schema_kinds. explore eqf c \<noteq> Inr kind)"
  then show "\<exists>e. UnmarshalJSON eqf df b = Inl e"
    using position_fails [of eqf b c df] by simp
next
  assume a: "Schema_position eqf doc c \<and> (\<forall>kind \<in> set Schema_kinds. explore eqf c \<noteq> Inr kind)"
  from Schema_position_fails [of eqf doc c df] a obtain e
    where e: "unmarshalStrict eqf df doc = Inl e" by blast
  then have "fetchMetaModel (Inr doc) (unmarshalStrict eqf df) = Inl (DecodeError e)"
    by (simp add: fetchMetaModel_def)
  with e show "\<exists>e. unmarshalStrict eqf df doc = Inl e
           \<and> fetchMetaModel (Inr doc) (unmarshalStrict eqf df) = Inl (DecodeError e)
           \<and> (\<forall>n. run (Inr doc) (unmarshalStrict eqf df) toGoPascal n
                  = Some ([], Inl (DecodeError e)))"
    by (simp add: run_def)
qed

theorem unknown_kind_is_decode_error_witness:
  "explore equalFold_ascii integer_kind = Inr ''integer''
   \<and> ''integer'' \<notin> set Schema_kinds
   \<and> UnmarshalJSON equalFold_ascii (\<lambda>v. Inr None) integer_kind
       = Inl (UnknownSchemaKind ''integer'')
   \<and> position equalFold_ascii array_of_integer_kind integer_kind
   \<and> (\<exists>e. UnmarshalJSON equalFold_ascii (\<lambda>v. Inr None) array_of_integer_kind = Inl e)
   \<and> Schema_position equalFold_ascii document_integer_kind integer_kind
   \<and> unmarshalStrict equalFold_ascii (\<lambda>v. Inr None) document_integer_kind
       = Inl (UnknownSchemaKind ''integer'')
   \<and> run (Inr document_integer_kind) (unmarshalStrict equalFold_ascii (\<lambda>v. Inr None))
       (\<lambda>name. name) 3
       = Some ([], Inl (DecodeError (UnknownSchemaKind ''integer'')))"
proof -
  have un: "unmarshalStrict equalFold_ascii (\<lambda>v. Inr None) document_integer_kind
      = Inl (UnknownSchemaKind ''integer'')"
    by code_simp
  have ex: "explore equalFold_ascii integer_kind = Inr ''integer''"
    by code_simp
  have nk: "''integer'' \<notin> set Schema_kinds"
    by (simp add: Schema_kinds_def)
  have ar: "explore equalFold_ascii
      (JObject [(''kind'', JString ''array''), (''element'', integer_kind)]) = Inr ''array''"
    by code_simp
  have fl: "field_of equalFold_ascii [''kind'', ''element''] ''element'' = Some ''element''"
    by code_simp
  have nn: "integer_kind \<noteq> JNull"
    by (simp add: integer_kind_def)
  have pos: "position equalFold_ascii array_of_integer_kind integer_kind"
    unfolding array_of_integer_kind_def
    by (rule position.element [OF ar _ fl nn position.here]) simp
  have ft: "field_of equalFold_ascii Property_fields ''type'' = Some ''type''"
    by code_simp
  have fp: "field_of equalFold_ascii Structure_fields ''properties'' = Some ''properties''"
    by code_simp
  have fs: "field_of equalFold_ascii Model_fields ''structures'' = Some ''structures''"
    by code_simp
  have pp: "Property_position equalFold_ascii
      (JObject [(''name'', JString ''code''), (''type'', integer_kind)]) integer_kind"
    by (rule Property_position.property_type [OF _ ft nn position.here]) simp
  have sp: "Structure_position equalFold_ascii
      (JObject [(''name'', JString ''Diagnostic''),
                (''properties'', JArray
                   [JObject [(''name'', JString ''code''), (''type'', integer_kind)]])])
      integer_kind"
    by (rule Structure_position.properties [OF _ fp _ pp]) (simp, simp)
  have dp: "Schema_position equalFold_ascii document_integer_kind integer_kind"
    unfolding document_integer_kind_def
    by (rule Schema_position.in_structure [OF _ fs _ sp]) (simp, simp)
  have bad: "\<forall>kind \<in> set Schema_kinds. explore equalFold_ascii integer_kind \<noteq> Inr kind"
    using ex nk by auto
  note t = unknown_kind_is_decode_error
  note r = unknown_kind_is_decode_error [where eqf = equalFold_ascii and df = "\<lambda>v. Inr None"
      and doc = document_integer_kind and c = integer_kind and toGoPascal = "\<lambda>name. name"]
  from r [THEN conjunct2, THEN conjunct2, rule_format, OF conjI [OF dp bad]] un
  have rn: "run (Inr document_integer_kind) (unmarshalStrict equalFold_ascii (\<lambda>v. Inr None))
       (\<lambda>name. name) 3
       = Some ([], Inl (DecodeError (UnknownSchemaKind ''integer'')))"
    by auto
  from t [THEN conjunct1, rule_format, OF conjI [OF ex nk]]
    t [THEN conjunct2, THEN conjunct1, rule_format, OF conjI [OF pos bad]]
    rn ex nk pos un dp
  show ?thesis by blast
qed



text \<open>
  Claim C8 says that name lookup returns the first definition whose name matches, the
  structure when the name is borne in more than one category.  \<^verbatim>\<open>AnyRef\<close> does not return
  the structure it finds: it calls \<^verbatim>\<open>Structure\<close> for the name, which resolves the
  properties of that structure first.  In the catalog below the name \<^verbatim>\<open>X\<close> is borne by a
  structure, an enumeration and a type alias, and the structure has a property that
  refers to a name not in the catalog: the lookup of \<^verbatim>\<open>X\<close> returns no definition, at any
  depth, but the error \<^verbatim>\<open>ref not found: Missing\<close>.
\<close>

theorem colliding_name_gives_no_definition:
  "(\<exists>s. find (\<lambda>s. Structure_Name s = ''X'') (Structures catalog_collision_broken) = Some s)
   \<and> ''X'' \<in> set (map Enumeration_Name (Enumerations catalog_collision_broken))
   \<and> ''X'' \<in> set (map TypeAlias_Name (TypeAliases catalog_collision_broken))
   \<and> Model_AnyRef 1 catalog_collision_broken ''X''
       = Some (catalog_collision_broken, Inl (RefNotFound ''Missing''))
   \<and> (\<forall>n. \<not> (\<exists>m' ref. Model_AnyRef n catalog_collision_broken ''X'' = Some (m', Inr ref)))"
proof (intro conjI allI)
  show "\<exists>s. find (\<lambda>s. Structure_Name s = ''X'') (Structures catalog_collision_broken) = Some s"
    by (simp add: catalog_collision_broken_def)
  show "''X'' \<in> set (map Enumeration_Name (Enumerations catalog_collision_broken))"
    by (simp add: catalog_collision_broken_def)
  show "''X'' \<in> set (map TypeAlias_Name (TypeAliases catalog_collision_broken))"
    by (simp add: catalog_collision_broken_def)
  show "Model_AnyRef 1 catalog_collision_broken ''X''
       = Some (catalog_collision_broken, Inl (RefNotFound ''Missing''))"
    by (simp add: Model_Structure.simps Model_AnyRef.simps catalog_collision_broken_def Type_at_def
          store_Type_def)
next
  fix n
  show "\<not> (\<exists>m' ref. Model_AnyRef n catalog_collision_broken ''X'' = Some (m', Inr ref))"
  proof (cases n)
    case 0
    then show ?thesis by (simp add: Model_AnyRef.simps catalog_collision_broken_def)
  next
    case (Suc k)
    then show ?thesis
      by (simp add: Model_Structure.simps Model_AnyRef.simps catalog_collision_broken_def
            Type_at_def store_Type_def)
  qed
qed

text \<open>
  Claim C8, as amended.  Name lookup scans the structures first, then the enumerations,
  then the type aliases (\<open>find\<close> yields the first element of a list that satisfies the
  test).  When no structure bears the name, it returns the first enumeration of that
  name, or else the first type alias of that name, or else the \<^verbatim>\<open>ref not found\<close> error,
  and leaves the catalog as it is.  When a structure bears the name, whatever the
  enumerations and the type aliases are, lookup returns what \<^verbatim>\<open>Structure\<close> of that name
  returns: the first structure of that name with its references resolved, or the error
  of that call.  It returns the structure whenever the references reachable from the name
  are acyclic and resolvable.
\<close>

theorem lookup_first_match:
  "(find (\<lambda>s. Structure_Name s = name) (Structures m) = None
      \<and> find (\<lambda>e. Enumeration_Name e = name) (Enumerations m) = Some en \<longrightarrow>
        Model_AnyRef n m name = Some (m, Inr (AnyRef name None (Some en) None)))
   \<and> (find (\<lambda>s. Structure_Name s = name) (Structures m) = None
      \<and> find (\<lambda>e. Enumeration_Name e = name) (Enumerations m) = None
      \<and> find (\<lambda>a. TypeAlias_Name a = name) (TypeAliases m) = Some al \<longrightarrow>
        Model_AnyRef n m name = Some (m, Inr (AnyRef name None None (Some al))))
   \<and> (find (\<lambda>s. Structure_Name s = name) (Structures m) = None
      \<and> find (\<lambda>e. Enumeration_Name e = name) (Enumerations m) = None
      \<and> find (\<lambda>a. TypeAlias_Name a = name) (TypeAliases m) = None \<longrightarrow>
        Model_AnyRef n m name = Some (m, Inl (RefNotFound name)))
   \<and> (find (\<lambda>s. Structure_Name s = name) (Structures m) = Some s
      \<and> Model_Structure k m name = Some (m', Inr st) \<longrightarrow>
        Model_AnyRef (Suc k) m name = Some (m', Inr (AnyRef name (Some st) None None))
        \<and> erase_Structure st = erase_Structure s)
   \<and> (find (\<lambda>s. Structure_Name s = name) (Structures m) = Some s
      \<and> Model_Structure k m name = Some (m', Inl er) \<longrightarrow>
        Model_AnyRef (Suc k) m name = Some (m', Inl er))
   \<and> (find (\<lambda>s. Structure_Name s = name) (Structures m) = Some s
      \<and> acyclic_from rank names m \<and> resolvable_from names m \<and> name \<in> set names \<longrightarrow>
        (\<exists>m' st. Model_AnyRef (Suc (rank name)) m name
                    = Some (m', Inr (AnyRef name (Some st) None None))
                  \<and> erase_Structure st = erase_Structure s))"
proof -
  have found: "Model_AnyRef (Suc k) m name = Some (m', Inr (AnyRef name (Some st) None None))
        \<and> erase_Structure st = erase_Structure s"
    if s: "find (\<lambda>s. Structure_Name s = name) (Structures m) = Some s"
      and run: "Model_Structure k m name = Some (m', Inr st)" for k m' st
  proof -
    from run obtain i where i: "first_index (\<lambda>s. Structure_Name s = name) (Structures m) = Some i"
      and st: "st = Structures m' ! i"
      by (rule Model_Structure_Some) auto
    from first_index_Some [OF i] s have "i < length (Structures m)" "s = Structures m ! i"
      by simp_all
    with erase_Model_nth [OF frame(4) [OF run]] st
    have "erase_Structure st = erase_Structure s" by simp
    with s run show ?thesis by (simp add: Model_AnyRef.simps [of _ m name])
  qed
  have resolved: "\<exists>m' st. Model_AnyRef (Suc (rank name)) m name
                    = Some (m', Inr (AnyRef name (Some st) None None))
                  \<and> erase_Structure st = erase_Structure s"
    if s: "find (\<lambda>s. Structure_Name s = name) (Structures m) = Some s"
      and ac: "acyclic_from rank names m" and rs: "resolvable_from names m"
      and nm: "name \<in> set names"
  proof -
    from s have "name \<in> set (structure_names m)"
      by (auto simp: structure_names_def find_Some_iff)
    from resolution_succeeds(4) [OF ac rs refl this nm order_refl]
    obtain m' st where "Model_Structure (rank name) m name = Some (m', Inr st)"
      by blast
    from found [OF s this] show ?thesis by blast
  qed
  show ?thesis
    using found resolved
    by (auto simp: Model_AnyRef.simps [of _ m name])
qed

theorem lookup_first_match_witness:
  "Model_AnyRef 0 catalog_AB ''E''
     = Some (catalog_AB, Inr (AnyRef ''E'' None (Some (Enumerations catalog_AB ! 0)) None))
   \<and> Model_AnyRef 0 catalog_AB ''T''
       = Some (catalog_AB, Inr (AnyRef ''T'' None None (Some (TypeAliases catalog_AB ! 0))))
   \<and> Model_AnyRef 0 catalog_AB ''Z'' = Some (catalog_AB, Inl (RefNotFound ''Z''))
   \<and> ''X'' \<in> set (map Enumeration_Name (Enumerations catalog_collision))
   \<and> ''X'' \<in> set (map TypeAlias_Name (TypeAliases catalog_collision))
   \<and> Model_AnyRef 1 catalog_collision ''X''
       = Some (catalog_collision,
               Inr (AnyRef ''X'' (Some (Structures catalog_collision ! 0)) None None))
   \<and> Model_AnyRef 1 catalog_broken ''A'' = Some (catalog_broken, Inl (RefNotFound ''Missing''))
   \<and> (\<exists>m' st. Model_AnyRef (Suc (rank_AB ''A'')) catalog_AB ''A''
                 = Some (m', Inr (AnyRef ''A'' (Some st) None None))
               \<and> erase_Structure st = erase_Structure (Structures catalog_AB ! 0))"
proof -
  note t = lookup_first_match
  have e: "find (\<lambda>s. Structure_Name s = ''E'') (Structures catalog_AB) = None
      \<and> find (\<lambda>e. Enumeration_Name e = ''E'') (Enumerations catalog_AB)
          = Some (Enumerations catalog_AB ! 0)"
    by (simp add: catalog_AB_def)
  have a: "find (\<lambda>s. Structure_Name s = ''T'') (Structures catalog_AB) = None
      \<and> find (\<lambda>e. Enumeration_Name e = ''T'') (Enumerations catalog_AB) = None
      \<and> find (\<lambda>a. TypeAlias_Name a = ''T'') (TypeAliases catalog_AB)
          = Some (TypeAliases catalog_AB ! 0)"
    by (simp add: catalog_AB_def)
  have z: "find (\<lambda>s. Structure_Name s = ''Z'') (Structures catalog_AB) = None
      \<and> find (\<lambda>e. Enumeration_Name e = ''Z'') (Enumerations catalog_AB) = None
      \<and> find (\<lambda>a. TypeAlias_Name a = ''Z'') (TypeAliases catalog_AB) = None"
    by (simp add: catalog_AB_def)
  have x: "find (\<lambda>s. Structure_Name s = ''X'') (Structures catalog_collision)
        = Some (Structures catalog_collision ! 0)
      \<and> Model_Structure 0 catalog_collision ''X''
        = Some (catalog_collision, Inr (Structures catalog_collision ! 0))"
    by (simp add: Model_Structure.simps catalog_collision_def Type_at_def store_Type_def)
  have en: "''X'' \<in> set (map Enumeration_Name (Enumerations catalog_collision))"
    "''X'' \<in> set (map TypeAlias_Name (TypeAliases catalog_collision))"
    by (simp_all add: catalog_collision_def)
  have b: "find (\<lambda>s. Structure_Name s = ''A'') (Structures catalog_broken)
        = Some (Structures catalog_broken ! 0)
      \<and> Model_Structure 0 catalog_broken ''A''
        = Some (catalog_broken, Inl (RefNotFound ''Missing''))"
    by (simp add: Model_Structure.simps Model_AnyRef.simps catalog_broken_def Type_at_def
          store_Type_def)
  have ac: "acyclic_from rank_AB [''A'', ''B''] catalog_AB"
    by (simp add: acyclic_from_def catalog_AB_def rank_AB_def structure_names_def)
  have rs: "resolvable_from [''A'', ''B''] catalog_AB"
    by (simp add: resolvable_from_def catalog_AB_def defined_names_def)
  have r: "find (\<lambda>s. Structure_Name s = ''A'') (Structures catalog_AB)
        = Some (Structures catalog_AB ! 0)
      \<and> acyclic_from rank_AB [''A'', ''B''] catalog_AB
      \<and> resolvable_from [''A'', ''B''] catalog_AB \<and> ''A'' \<in> set [''A'', ''B'']"
    using ac rs by (simp add: catalog_AB_def)
  from t [THEN conjunct1, rule_format, OF e]
    t [THEN conjunct2, THEN conjunct1, rule_format, OF a]
    t [THEN conjunct2, THEN conjunct2, THEN conjunct1, rule_format, OF z]
    t [THEN conjunct2, THEN conjunct2, THEN conjunct2, THEN conjunct1, rule_format, OF x,
       THEN conjunct1]
    t [THEN conjunct2, THEN conjunct2, THEN conjunct2, THEN conjunct2, THEN conjunct1,
       rule_format, OF b]
    t [THEN conjunct2, THEN conjunct2, THEN conjunct2, THEN conjunct2, THEN conjunct2,
       rule_format, OF r]
    en
  show ?thesis by simp
qed

end
